theory Spec2Isabelle
  imports Complex_Main "HOL-Library.AList"
begin

section \<open>textClust: a shallow embedding of \<^verbatim>\<open>river/cluster/textclust.py\<close>\<close>

text \<open>
  The engine is modelled by explicit state passing. Python floats and ints that take part
  in arithmetic are modelled by \<^typ>\<open>real\<close> (exact arithmetic: rounding errors of IEEE
  doubles are outside the model), dictionaries by association lists in insertion order
  (the order Python iterates a dict in), exceptions by the left injection of a sum type.
  The attribute \<^verbatim>\<open>realtime\<close> is never assigned anything but itself and is never read
  by a computation, so it is left out of the records; the unused parameter \<^verbatim>\<open>w\<close> of
  \<^verbatim>\<open>learn_one\<close> and \<^verbatim>\<open>predict_one\<close> is left out as well. Once a call has raised, the state
  it leaves behind is not modelled.

  A statement that two differently computed floats are equal, or that a float stays within
  bounds for inputs of any magnitude, depends on the rounding and the overflow of doubles;
  the model decides it for exact arithmetic only, and the lemmas of that kind say so.
\<close>

subsection \<open>Data model\<close>

datatype error = KeyError | TypeError | ValueError | IndexError | AttributeError | RecursionError

text \<open>A term-weight vector: the dict \<^verbatim>\<open>{term: {"tf": value}}\<close>.\<close>

type_synonym tfvec = "(string \<times> real) list"

text \<open>
  The class \<^verbatim>\<open>microcluster\<close>. \<^verbatim>\<open>id\<close> is \<^verbatim>\<open>None\<close> for the transient cluster of an
  assignment query, \<^verbatim>\<open>time\<close> is \<^verbatim>\<open>None\<close> when the clock was never set.
\<close>

record microcluster =
  mc_id :: "nat option"
  weight :: real
  mc_time :: "real option"
  tf :: tfvec
  oldweight :: real
  deltaweight :: real
  mc_n :: nat
  merged_ids :: "nat option list"

text \<open>The constructor \<^verbatim>\<open>microcluster.__init__(tf, time, weight, realtime, clusterid)\<close>.\<close>

definition new_microcluster :: "tfvec \<Rightarrow> real option \<Rightarrow> real \<Rightarrow> nat option \<Rightarrow> microcluster" where
  "new_microcluster tfv time w clusterid =
     \<lparr>mc_id = clusterid, weight = w, mc_time = time, tf = tfv, oldweight = 0,
      deltaweight = 0, mc_n = 1, merged_ids = []\<rparr>"

text \<open>The constructor arguments of \<^verbatim>\<open>TextClust\<close>; they are never changed afterwards.\<close>

record config =
  radius :: real
  fading_factor :: real
  tgap :: real
  term_fading :: bool
  real_time_fading :: bool
  micro_distance :: string
  macro_distance :: string
  num_macro :: int
  min_weight :: real
  auto_r :: bool
  auto_merge :: bool
  sigma :: real

text \<open>\<^verbatim>\<open>self.omega = 2 ** (-1 * self.fading_factor * self.tgap)\<close>, fixed at construction.\<close>

definition omega :: "config \<Rightarrow> real" where
  "omega cfg = 2 powr (-1 * fading_factor cfg * tgap cfg)"

text \<open>The mutable attributes of a \<^verbatim>\<open>TextClust\<close> instance.\<close>

record state =
  st_t :: "real option"
  last_cleanup :: "real option"
  st_n :: nat
  micro_clusters :: "(nat \<times> microcluster) list"
  microToMacro :: "(nat \<times> nat) list option"
  clusterId :: nat
  up_to_date :: bool
  dist_mean :: real
  num_merged_obs :: nat

definition init_state :: state where
  "init_state =
     \<lparr>st_t = None, last_cleanup = Some 0, st_n = 1, micro_clusters = [], microToMacro = None,
      clusterId = 0, up_to_date = False, dist_mean = 0, num_merged_obs = 0\<rparr>"

subsection \<open>Micro-cluster operations\<close>

text \<open>
  \<^verbatim>\<open>microcluster.fade\<close>. The subtraction \<^verbatim>\<open>tnow - self.time\<close> raises \<^verbatim>\<open>TypeError\<close> when
  either side is \<^verbatim>\<open>None\<close>. With term fading every term weight is multiplied by the same
  factor and the entries at or below \<^verbatim>\<open>omega\<close> are deleted.
\<close>

definition fade_factor :: "real \<Rightarrow> real \<Rightarrow> real \<Rightarrow> real" where
  "fade_factor ff tnow tm = 2 powr (- ff * (tnow - tm))"

definition fade_tf :: "real \<Rightarrow> real \<Rightarrow> tfvec \<Rightarrow> tfvec" where
  "fade_tf f om tfv = filter (\<lambda>(k, v). \<not> v \<le> om) (map (\<lambda>(k, v). (k, v * f)) tfv)"

definition fade :: "microcluster \<Rightarrow> real option \<Rightarrow> real \<Rightarrow> real \<Rightarrow> bool \<Rightarrow> error + microcluster" where
  "fade self tnow om ff tfading =
     (case tnow of
        None \<Rightarrow> Inl TypeError
      | Some tn \<Rightarrow>
          (case mc_time self of
             None \<Rightarrow> Inl TypeError
           | Some tm \<Rightarrow>
               Inr (self\<lparr>weight := weight self * fade_factor ff tn tm,
                         tf := (if tfading then fade_tf (fade_factor ff tn tm) om (tf self)
                                else tf self),
                         mc_time := Some tn\<rparr>)))"

text \<open>
  The loop of \<^verbatim>\<open>merge\<close> over the other cluster's terms: a shared term gets the sum, a new
  term is appended.
\<close>

definition add_term :: "string \<times> real \<Rightarrow> tfvec \<Rightarrow> tfvec" where
  "add_term kv acc =
     (case map_of acc (fst kv) of
        Some u \<Rightarrow> AList.update (fst kv) (u + snd kv) acc
      | None \<Rightarrow> AList.update (fst kv) (snd kv) acc)"

text \<open>
  \<^verbatim>\<open>microcluster.merge\<close>: add the raw weight, fade both clusters to \<^verbatim>\<open>t\<close>, then fold the
  other cluster's terms in. Both objects are mutated, so both are returned.
\<close>

definition merge ::
  "microcluster \<Rightarrow> microcluster \<Rightarrow> real option \<Rightarrow> real \<Rightarrow> real \<Rightarrow> bool
     \<Rightarrow> error + (microcluster \<times> microcluster)" where
  "merge self other t om ff tfading =
     (case fade (self\<lparr>weight := weight self + weight other\<rparr>) t om ff tfading of
        Inl e \<Rightarrow> Inl e
      | Inr self1 \<Rightarrow>
          (case fade other t om ff tfading of
             Inl e \<Rightarrow> Inl e
           | Inr other1 \<Rightarrow>
               Inr (self1\<lparr>mc_time := t, tf := fold add_term (tf other1) (tf self1)\<rparr>,
                    other1)))"

subsection \<open>Numeric helpers\<close>

text \<open>\<^verbatim>\<open>math.sqrt\<close> raises \<^verbatim>\<open>ValueError\<close> on a negative argument.\<close>

definition py_sqrt :: "real \<Rightarrow> error + real" where
  "py_sqrt x = (if x < 0 then Inl ValueError else Inr (sqrt x))"

text \<open>
  \<^verbatim>\<open>round(x, ndigits)\<close>: the nearest multiple of \<open>10^(-ndigits)\<close>, a tie going to the even
  one.
\<close>

definition py_round :: "real \<Rightarrow> nat \<Rightarrow> real" where
  "py_round x nd =
     (let s = x * 10 ^ nd; f = \<lfloor>s\<rfloor>; r = s - of_int f
      in (if r < 1 / 2 then of_int f
          else if 1 / 2 < r then of_int f + 1
          else if even f then of_int f else of_int f + 1) / 10 ^ nd)"

subsection \<open>Term rarity (IDF)\<close>

text \<open>
  \<^verbatim>\<open>_calculateIDF\<close>: the first loop counts, for every term, the clusters that hold it; the
  second replaces each count \<open>df\<close> by \<open>1 + ln (N / df)\<close>. Every count is at least 1, so
  the logarithm's argument is positive.
\<close>

definition count_term :: "string \<Rightarrow> (string \<times> nat) list \<Rightarrow> (string \<times> nat) list" where
  "count_term k result =
     (case map_of result k of
        None \<Rightarrow> AList.update k 1 result
      | Some c \<Rightarrow> AList.update k (c + 1) result)"

definition count_terms :: "microcluster list \<Rightarrow> (string \<times> nat) list" where
  "count_terms mcs = fold (\<lambda>micro result. fold count_term (map fst (tf micro)) result) mcs []"

definition calculateIDF :: "microcluster list \<Rightarrow> (string \<times> real) list" where
  "calculateIDF mcs =
     map (\<lambda>(k, c). (k, 1 + ln (real (length mcs) / real c))) (count_terms mcs)"

subsection \<open>Distance\<close>

text \<open>
  \<^verbatim>\<open>tfidf_cosine_distance\<close>. The first loop runs over the terms of \<^verbatim>\<open>mc\<close> and skips those
  without an idf entry; the second loop runs over the terms of \<^verbatim>\<open>microcluster\<close> and reads
  \<^verbatim>\<open>idf[k]\<close> unguarded, which raises \<^verbatim>\<open>KeyError\<close> for a missing term.
\<close>

definition dist_step ::
  "(string \<times> real) list \<Rightarrow> tfvec \<Rightarrow> string \<times> real \<Rightarrow> real \<times> real \<Rightarrow> real \<times> real" where
  "dist_step idf mtf kv acc =
     (case map_of idf (fst kv) of
        None \<Rightarrow> acc
      | Some i \<Rightarrow>
          ((case map_of mtf (fst kv) of
              None \<Rightarrow> fst acc
            | Some u \<Rightarrow> fst acc + (snd kv * i) * (u * i)),
           snd acc + snd kv * i * snd kv * i))"

fun micro_len :: "(string \<times> real) list \<Rightarrow> tfvec \<Rightarrow> real \<Rightarrow> error + real" where
  "micro_len idf [] acc = Inr acc"
| "micro_len idf (kv # rest) acc =
     (case map_of idf (fst kv) of
        None \<Rightarrow> Inl KeyError
      | Some i \<Rightarrow> micro_len idf rest (acc + snd kv * i * snd kv * i))"

definition tfidf_cosine_distance ::
  "microcluster \<Rightarrow> microcluster \<Rightarrow> (string \<times> real) list \<Rightarrow> error + real" where
  "tfidf_cosine_distance mc microcluster idf =
     (let acc = fold (dist_step idf (tf microcluster)) (tf mc) (0, 0)
      in case py_sqrt (snd acc) of
           Inl e \<Rightarrow> Inl e
         | Inr tfidflen \<Rightarrow>
             (case micro_len idf (tf microcluster) 0 of
                Inl e \<Rightarrow> Inl e
              | Inr m \<Rightarrow>
                  (case py_sqrt m of
                     Inl e \<Rightarrow> Inl e
                   | Inr microtfidflen \<Rightarrow>
                       if tfidflen = 0 \<or> microtfidflen = 0 then Inr 1
                       else Inr (py_round (1 - fst acc / (tfidflen * microtfidflen)) 10))))"

text \<open>
  \<^verbatim>\<open>distances.dist\<close> looks the metric up by name with \<^verbatim>\<open>getattr\<close>. The only metric is
  \<^verbatim>\<open>tfidf_cosine_distance\<close>; the name \<^verbatim>\<open>dist\<close> calls itself without end, and any other
  name is taken to fail with \<^verbatim>\<open>TypeError\<close> (the default is a function of no arguments, and
  the attributes every Python object has are not metrics either).
\<close>

definition dist ::
  "string \<Rightarrow> microcluster \<Rightarrow> microcluster \<Rightarrow> (string \<times> real) list \<Rightarrow> error + real" where
  "dist type m1 m2 idf =
     (if type = ''tfidf_cosine_distance'' then tfidf_cosine_distance m1 m2 idf
      else if type = ''dist'' then Inl RecursionError
      else Inl TypeError)"


subsection \<open>Nearest cluster\<close>

text \<open>
  The loop of \<^verbatim>\<open>_get_closest_mc\<close> over the store, carrying
  \<^verbatim>\<open>(min_dist, smallest_key, sumdist, squaresum, counter)\<close>.
\<close>

fun closest_scan ::
  "string \<Rightarrow> microcluster \<Rightarrow> (string \<times> real) list \<Rightarrow> (nat \<times> microcluster) list
     \<Rightarrow> real \<times> nat option \<times> real \<times> real \<times> nat
     \<Rightarrow> error + (real \<times> nat option \<times> real \<times> real \<times> nat)" where
  "closest_scan distance mc idf [] acc = Inr acc"
| "closest_scan distance mc idf ((key, c) # rest) (min_d, smallest, sumdist, squaresum, counter) =
     (case dist distance mc c idf of
        Inl e \<Rightarrow> Inl e
      | Inr d \<Rightarrow>
          closest_scan distance mc idf rest
            (if d < min_d then d else min_d,
             if d < min_d then Some key else smallest,
             sumdist + d, squaresum + d ^ 2, counter + 1))"

text \<open>
  \<^verbatim>\<open>_get_closest_mc\<close>: returns \<^verbatim>\<open>(clusterId, min_dist)\<close>. With \<^verbatim>\<open>auto_r\<close> the threshold is
  computed only when more than one cluster was compared.
\<close>

definition get_closest_mc ::
  "config \<Rightarrow> state \<Rightarrow> microcluster \<Rightarrow> (string \<times> real) list \<Rightarrow> string
     \<Rightarrow> error + (nat option \<times> real)" where
  "get_closest_mc cfg st mc idf distance =
     (case closest_scan distance mc idf (micro_clusters st) (1, None, 0, 0, 0) of
        Inl e \<Rightarrow> Inl e
      | Inr (min_d, smallest, sumdist, squaresum, counter) \<Rightarrow>
          if auto_r cfg then
            (if 1 < counter then
               (let mu = (sumdist - min_d) / (real counter - 1)
                in case py_sqrt (squaresum / (real counter - 1) - mu ^ 2) of
                     Inl e \<Rightarrow> Inl e
                   | Inr sd \<Rightarrow>
                       Inr (if min_d < mu - sigma cfg * sd then smallest else None, min_d))
             else Inr (None, min_d))
          else Inr (if min_d < radius cfg then smallest else None, min_d))"

subsection \<open>Fading and eviction of the store\<close>

fun fade_all ::
  "real option \<Rightarrow> real \<Rightarrow> real \<Rightarrow> bool \<Rightarrow> (nat \<times> microcluster) list
     \<Rightarrow> error + (nat \<times> microcluster) list" where
  "fade_all t om ff tfading [] = Inr []"
| "fade_all t om ff tfading ((key, c) # rest) =
     (case fade c t om ff tfading of
        Inl e \<Rightarrow> Inl e
      | Inr c' \<Rightarrow>
          (case fade_all t om ff tfading rest of
             Inl e \<Rightarrow> Inl e
           | Inr rest' \<Rightarrow> Inr ((key, c') # rest')))"

text \<open>The eviction test of \<^verbatim>\<open>_updateweights\<close>.\<close>

definition evicted :: "config \<Rightarrow> microcluster \<Rightarrow> bool" where
  "evicted cfg c \<longleftrightarrow> weight c \<le> omega cfg \<or> length (tf c) = 0"

text \<open>\<^verbatim>\<open>_updateweights\<close>: fade every cluster to \<^verbatim>\<open>self.t\<close>, then delete the evicted ones.\<close>

definition updateweights :: "config \<Rightarrow> state \<Rightarrow> error + state" where
  "updateweights cfg st =
     (case fade_all (st_t st) (omega cfg) (fading_factor cfg) (term_fading cfg)
             (micro_clusters st) of
        Inl e \<Rightarrow> Inl e
      | Inr mcs \<Rightarrow>
          Inr (st\<lparr>micro_clusters := filter (\<lambda>(key, c). \<not> evicted cfg c) mcs\<rparr>))"

subsection \<open>Pairwise merge pass\<close>

text \<open>\<^verbatim>\<open>del xs[j]\<close> for an index in range.\<close>

definition del_at :: "nat \<Rightarrow> 'a list \<Rightarrow> 'a list" where
  "del_at j xs = take j xs @ drop (Suc j) xs"

text \<open>The local variable \<^verbatim>\<open>threshold\<close> of \<^verbatim>\<open>_mergemicroclusters\<close>.\<close>

definition merge_threshold :: "config \<Rightarrow> state \<Rightarrow> real" where
  "merge_threshold cfg st =
     (if auto_r cfg then dist_mean st / (real (num_merged_obs st) + 1) else radius cfg)"

lemma length_delete_less:
  "map_of mcs k = Some v \<Longrightarrow> length (AList.delete k mcs) < length mcs"
proof (induction mcs)
  case Nil
  then show ?case by simp
next
  case (Cons p mcs)
  have "length (AList.delete k mcs) \<le> length mcs"
    by (simp add: AList.delete_eq)
  with Cons show ?case
    by (cases "fst p = k") (auto simp: less_Suc_eq_le)
qed

lemma length_update_present:
  "map_of mcs k = Some v \<Longrightarrow> length (AList.update k w mcs) = length mcs"
  by (induction mcs) (auto split: if_splits)

lemma map_of_update_present:
  "map_of mcs k = Some v \<Longrightarrow> \<exists>u. map_of (AList.update k' w mcs) k = Some u"
  by (simp add: update_conv')

text \<open>
  The inner \<^verbatim>\<open>while j < len(self.micro_clusters)\<close> loop of \<^verbatim>\<open>_mergemicroclusters\<close>. The list
  \<^verbatim>\<open>micro_keys\<close> and the store lose the same key together.
\<close>

function merge_inner ::
  "config \<Rightarrow> real option \<Rightarrow> (string \<times> real) list \<Rightarrow> real \<Rightarrow> nat \<Rightarrow> nat \<Rightarrow> nat list
     \<Rightarrow> (nat \<times> microcluster) list \<Rightarrow> error + (nat list \<times> (nat \<times> microcluster) list)" where
  "merge_inner cfg t idf threshold i j micro_keys mcs =
     (if j < length mcs then
        (if length micro_keys \<le> i then Inl IndexError
         else case map_of mcs (micro_keys ! i) of
           None \<Rightarrow> Inl KeyError
         | Some ci \<Rightarrow>
             (if length micro_keys \<le> j then Inl IndexError
              else case map_of mcs (micro_keys ! j) of
                None \<Rightarrow> Inl KeyError
              | Some cj \<Rightarrow>
                  (case dist (micro_distance cfg) ci cj idf of
                     Inl e \<Rightarrow> Inl e
                   | Inr m_dist \<Rightarrow>
                       if m_dist < threshold then
                         (case merge ci cj t (omega cfg) (fading_factor cfg) (term_fading cfg) of
                            Inl e \<Rightarrow> Inl e
                          | Inr (ci', cj') \<Rightarrow>
                              merge_inner cfg t idf threshold i j (del_at j micro_keys)
                                (AList.delete (micro_keys ! j)
                                   (AList.update (micro_keys ! i)
                                      (ci'\<lparr>merged_ids := merged_ids ci' @ [mc_id cj']\<rparr>) mcs)))
                       else merge_inner cfg t idf threshold i (j + 1) micro_keys mcs)))
      else Inr (micro_keys, mcs))"
  by pat_completeness auto
termination
proof (relation "measure (\<lambda>(cfg, t, idf, threshold, i, j, micro_keys, mcs). length mcs - j)",
    goal_cases)
  case 1
  then show ?case by simp
next
  case (2 cfg t idf threshold i j micro_keys mcs ci cj m_dist x ci' cj')
  let ?upd = "AList.update (micro_keys ! i) (ci'\<lparr>merged_ids := merged_ids ci' @ [mc_id cj']\<rparr>) mcs"
  from 2 have "length ?upd = length mcs"
    by (simp add: length_update_present)
  moreover from 2 have "\<exists>u. map_of ?upd (micro_keys ! j) = Some u"
    by (simp add: update_conv')
  then obtain u where "map_of ?upd (micro_keys ! j) = Some u" ..
  then have "length (AList.delete (micro_keys ! j) ?upd) < length ?upd"
    by (rule length_delete_less)
  ultimately show ?case using 2 by simp
next
  case 3
  then show ?case by simp
qed

declare merge_inner.simps [simp del]

lemma merge_inner_length:
  "merge_inner cfg t idf threshold i j micro_keys mcs = Inr (ks, mcs')
     \<Longrightarrow> length mcs' \<le> length mcs"
proof (induction cfg t idf threshold i j micro_keys mcs rule: merge_inner.induct)
  case (1 cfg t idf threshold i j micro_keys mcs)
  note unf = merge_inner.simps [of cfg t idf threshold i j micro_keys mcs]
  show ?case
  proof (cases "j < length mcs")
    case False
    with "1.prems" show ?thesis by (simp add: unf)
  next
    case True
    note j = True
    from "1.prems" j obtain ci cj m_dist where
      i: "\<not> length micro_keys \<le> i" "map_of mcs (micro_keys ! i) = Some ci" and
      j': "\<not> length micro_keys \<le> j" "map_of mcs (micro_keys ! j) = Some cj" and
      d: "dist (micro_distance cfg) ci cj idf = Inr m_dist"
      by (auto simp: unf split: if_splits option.splits sum.splits)
    show ?thesis
    proof (cases "m_dist < threshold")
      case False
      with "1.prems" j i j' d have
        "merge_inner cfg t idf threshold i (j + 1) micro_keys mcs = Inr (ks, mcs')"
        by (simp add: unf)
      with "1.IH"(2) [OF j i(1) i(2) j'(1) j'(2) d False] show ?thesis by simp
    next
      case True
      with "1.prems" j i j' d obtain ci' cj' where
        m: "merge ci cj t (omega cfg) (fading_factor cfg) (term_fading cfg) = Inr (ci', cj')"
        by (auto simp: unf split: sum.splits)
      let ?upd = "AList.update (micro_keys ! i)
                    (ci'\<lparr>merged_ids := merged_ids ci' @ [mc_id cj']\<rparr>) mcs"
      from "1.prems" j i j' d True m have
        "merge_inner cfg t idf threshold i j (del_at j micro_keys)
           (AList.delete (micro_keys ! j) ?upd) = Inr (ks, mcs')"
        by (simp add: unf)
      with "1.IH"(1) [OF j i(1) i(2) j'(1) j'(2) d True m refl]
      have "length mcs' \<le> length (AList.delete (micro_keys ! j) ?upd)" by simp
      also have "\<dots> \<le> length ?upd" by (simp add: AList.delete_eq)
      also have "\<dots> = length mcs" using i(2) by (simp add: length_update_present)
      finally show ?thesis .
    qed
  qed
qed

text \<open>The outer \<^verbatim>\<open>while i < len(self.micro_clusters)\<close> loop.\<close>

function merge_outer ::
  "config \<Rightarrow> real option \<Rightarrow> (string \<times> real) list \<Rightarrow> real \<Rightarrow> nat \<Rightarrow> nat list
     \<Rightarrow> (nat \<times> microcluster) list \<Rightarrow> error + (nat \<times> microcluster) list" where
  "merge_outer cfg t idf threshold i micro_keys mcs =
     (if i < length mcs then
        (case merge_inner cfg t idf threshold i (i + 1) micro_keys mcs of
           Inl e \<Rightarrow> Inl e
         | Inr (ks, mcs') \<Rightarrow> merge_outer cfg t idf threshold (i + 1) ks mcs')
      else Inr mcs)"
  by pat_completeness auto
termination
proof (relation "measure (\<lambda>(cfg, t, idf, threshold, i, micro_keys, mcs). length mcs - i)",
    goal_cases)
  case 1
  then show ?case by simp
next
  case (2 cfg t idf threshold i micro_keys mcs x ks mcs')
  then have "merge_inner cfg t idf threshold i (i + 1) micro_keys mcs = Inr (ks, mcs')"
    by simp
  then have "length mcs' \<le> length mcs"
    by (rule merge_inner_length)
  with 2 show ?case by auto
qed

declare merge_outer.simps [simp del]

text \<open>
  The two loops of \<^verbatim>\<open>_mergemicroclusters\<close>, run with a given value of the local variable
  \<^verbatim>\<open>threshold\<close>.
\<close>

definition merge_pass :: "config \<Rightarrow> real \<Rightarrow> state \<Rightarrow> error + state" where
  "merge_pass cfg threshold st =
     (let micro_keys = map fst (micro_clusters st);
          idf = calculateIDF (map snd (micro_clusters st))
      in case merge_outer cfg (st_t st) idf threshold 0 micro_keys (micro_clusters st) of
           Inl e \<Rightarrow> Inl e
         | Inr mcs \<Rightarrow> Inr (st\<lparr>micro_clusters := mcs\<rparr>))"

text \<open>
  \<^verbatim>\<open>_mergemicroclusters\<close>: the threshold is \<^verbatim>\<open>self._dist_mean / (self._num_merged_obs + 1)\<close>
  with \<^verbatim>\<open>auto_r\<close>, the radius otherwise.
\<close>

definition mergemicroclusters :: "config \<Rightarrow> state \<Rightarrow> error + state" where
  "mergemicroclusters cfg st = merge_pass cfg (merge_threshold cfg st) st"

subsection \<open>Cleanup\<close>

text \<open>The loop of \<^verbatim>\<open>_cleanup\<close> that snapshots the weights.\<close>

definition set_deltaweights :: "state \<Rightarrow> state" where
  "set_deltaweights st =
     st\<lparr>micro_clusters :=
          map (\<lambda>(key, c). (key, c\<lparr>deltaweight := weight c - oldweight c, oldweight := weight c\<rparr>))
            (micro_clusters st)\<rparr>"

text \<open>
  \<^verbatim>\<open>_cleanup\<close> up to the merge pass: the state in which \<^verbatim>\<open>_mergemicroclusters\<close> is entered.
\<close>

definition cleanup_fade :: "config \<Rightarrow> state \<Rightarrow> error + state" where
  "cleanup_fade cfg st =
     (case updateweights cfg (st\<lparr>last_cleanup := st_t st\<rparr>) of
        Inl e \<Rightarrow> Inl e
      | Inr st1 \<Rightarrow> Inr (set_deltaweights st1))"

text \<open>\<^verbatim>\<open>_cleanup\<close>.\<close>

definition cleanup :: "config \<Rightarrow> state \<Rightarrow> error + state" where
  "cleanup cfg st =
     (case cleanup_fade cfg st of
        Inl e \<Rightarrow> Inl e
      | Inr st1 \<Rightarrow>
          (case (if auto_merge cfg then mergemicroclusters cfg st1 else Inr st1) of
             Inl e \<Rightarrow> Inl e
           | Inr st2 \<Rightarrow> Inr (st2\<lparr>dist_mean := 0, num_merged_obs := 0\<rparr>)))"

subsection \<open>Ingestion\<close>

text \<open>
  The block \<^verbatim>\<open>if len(ngrams) > 0\<close> of \<^verbatim>\<open>learn_one\<close>: build the transient cluster, find the
  closest stored cluster, then merge into it or store the transient cluster under the next
  identifier.
\<close>

definition ingest :: "config \<Rightarrow> state \<Rightarrow> tfvec \<Rightarrow> error + (nat option \<times> state)" where
  "ingest cfg st ngrams =
     (let mc = new_microcluster ngrams (st_t st) 1 (Some (clusterId st));
          idf = calculateIDF (map snd (micro_clusters st))
      in case get_closest_mc cfg st mc idf (micro_distance cfg) of
           Inl e \<Rightarrow> Inl e
         | Inr (cid, min_d) \<Rightarrow>
             (case cid of
                Some c \<Rightarrow>
                  (case map_of (micro_clusters st) c of
                     None \<Rightarrow> Inl KeyError
                   | Some target \<Rightarrow>
                       (case merge (target\<lparr>mc_n := mc_n target + 1\<rparr>) mc (st_t st) (omega cfg)
                               (fading_factor cfg) (term_fading cfg) of
                          Inl e \<Rightarrow> Inl e
                        | Inr (target', mc') \<Rightarrow>
                            Inr (Some c,
                                 st\<lparr>num_merged_obs := num_merged_obs st + 1,
                                    micro_clusters := AList.update c target' (micro_clusters st),
                                    dist_mean := dist_mean st + min_d\<rparr>)))
              | None \<Rightarrow>
                  Inr (Some (clusterId st),
                       st\<lparr>dist_mean := dist_mean st + min_d,
                          micro_clusters := AList.update (clusterId st) mc (micro_clusters st),
                          clusterId := clusterId st + 1\<rparr>)))"

text \<open>
  The call of \<^verbatim>\<open>_get_closest_mc\<close> that \<^verbatim>\<open>learn_one\<close> makes for an observation, and the state
  its create branch leaves (the branch \<^verbatim>\<open>else\<close> of \<^verbatim>\<open>if clusterId is not None\<close>) when the
  minimum distance found is \<open>d\<close>.
\<close>

definition closest_for :: "config \<Rightarrow> state \<Rightarrow> tfvec \<Rightarrow> error + (nat option \<times> real)" where
  "closest_for cfg st ngrams =
     get_closest_mc cfg st (new_microcluster ngrams (st_t st) 1 (Some (clusterId st)))
       (calculateIDF (map snd (micro_clusters st))) (micro_distance cfg)"

definition created :: "state \<Rightarrow> tfvec \<Rightarrow> real \<Rightarrow> state" where
  "created st ngrams d =
     st\<lparr>dist_mean := dist_mean st + d,
        micro_clusters :=
          AList.update (clusterId st) (new_microcluster ngrams (st_t st) 1 (Some (clusterId st)))
            (micro_clusters st),
        clusterId := clusterId st + 1\<rparr>"

text \<open>
  The test \<^verbatim>\<open>self.last_cleanup is None or self.t - self.last_cleanup >= self.tgap\<close>; the
  subtraction raises when the clock is \<^verbatim>\<open>None\<close>.
\<close>

definition cleanup_due :: "config \<Rightarrow> state \<Rightarrow> error + bool" where
  "cleanup_due cfg st =
     (case last_cleanup st of
        None \<Rightarrow> Inr True
      | Some lc \<Rightarrow>
          (case st_t st of
             None \<Rightarrow> Inl TypeError
           | Some tn \<Rightarrow> Inr (tgap cfg \<le> tn - lc)))"

text \<open>
  \<^verbatim>\<open>learn_one(x, t)\<close>: returns the cluster identifier and the new state. It first marks the
  macro assignment stale and sets the clock, to the caller's time or to the observation
  counter.
\<close>

definition set_clock :: "config \<Rightarrow> state \<Rightarrow> real option \<Rightarrow> state" where
  "set_clock cfg st t =
     st\<lparr>up_to_date := False,
        st_t := (if real_time_fading cfg then t else Some (real (st_n st)))\<rparr>"

definition learn_one ::
  "config \<Rightarrow> state \<Rightarrow> tfvec \<Rightarrow> real option \<Rightarrow> error + (nat option \<times> state)" where
  "learn_one cfg st x t =
     (let st1 = set_clock cfg st t
      in case (if 0 < length x then ingest cfg st1 x else Inr (None, st1)) of
           Inl e \<Rightarrow> Inl e
         | Inr (cid, st2) \<Rightarrow>
             (case cleanup_due cfg st2 of
                Inl e \<Rightarrow> Inl e
              | Inr due \<Rightarrow>
                  (case (if due then cleanup cfg st2 else Inr st2) of
                     Inl e \<Rightarrow> Inl e
                   | Inr st3 \<Rightarrow> Inr (cid, st3\<lparr>st_n := st_n st3 + 1\<rparr>))))"


subsection \<open>Runs of the engine and the ledger of distances\<close>

text \<open>Successive calls of \<^verbatim>\<open>learn_one\<close>, each with its observation and timestamp.\<close>

fun learn_many :: "config \<Rightarrow> state \<Rightarrow> (tfvec \<times> real option) list \<Rightarrow> error + state" where
  "learn_many cfg st [] = Inr st"
| "learn_many cfg st ((x, t) # obs) =
     (case learn_one cfg st x t of
        Inl e \<Rightarrow> Inl e
      | Inr (r, st') \<Rightarrow> learn_many cfg st' obs)"

text \<open>
  The comparison run for the threshold of the merge pass. It does not read the attributes
  \<^verbatim>\<open>_dist_mean\<close> and \<^verbatim>\<open>_num_merged_obs\<close>; it keeps a ledger of its own: the sum of the
  minimum distances of all non-empty ingestions since the last cleanup, and the number of
  those ingestions that took the merge path. A cleanup runs the merge pass with the
  threshold \<open>sum / (number + 1)\<close> of the ledger in adaptive mode (the radius otherwise)
  and empties the ledger.
\<close>

definition ledger_cleanup :: "config \<Rightarrow> real \<times> nat \<Rightarrow> state \<Rightarrow> error + state" where
  "ledger_cleanup cfg ledger st =
     (case cleanup_fade cfg st of
        Inl e \<Rightarrow> Inl e
      | Inr st1 \<Rightarrow>
          (case (if auto_merge cfg
                 then merge_pass cfg
                        (if auto_r cfg then fst ledger / (real (snd ledger) + 1) else radius cfg)
                        st1
                 else Inr st1) of
             Inl e \<Rightarrow> Inl e
           | Inr st2 \<Rightarrow> Inr (st2\<lparr>dist_mean := 0, num_merged_obs := 0\<rparr>)))"

definition ledger_step ::
  "config \<Rightarrow> state \<Rightarrow> real \<times> nat \<Rightarrow> tfvec \<Rightarrow> real option
     \<Rightarrow> error + (state \<times> real \<times> nat)" where
  "ledger_step cfg st ledger x t =
     (let st1 = set_clock cfg st t
      in case (if 0 < length x then
                 (case closest_for cfg st1 x of
                    Inl e \<Rightarrow> Inl e
                  | Inr (cid, d) \<Rightarrow>
                      (case ingest cfg st1 x of
                         Inl e \<Rightarrow> Inl e
                       | Inr (r, st2) \<Rightarrow>
                           Inr (st2, fst ledger + d,
                                snd ledger + (if cid = None then 0 else 1))))
               else Inr (st1, ledger)) of
           Inl e \<Rightarrow> Inl e
         | Inr (st2, ledger') \<Rightarrow>
             (case cleanup_due cfg st2 of
                Inl e \<Rightarrow> Inl e
              | Inr due \<Rightarrow>
                  if due then
                    (case ledger_cleanup cfg ledger' st2 of
                       Inl e \<Rightarrow> Inl e
                     | Inr st3 \<Rightarrow> Inr (st3\<lparr>st_n := st_n st3 + 1\<rparr>, 0, 0))
                  else Inr (st2\<lparr>st_n := st_n st2 + 1\<rparr>, ledger')))"

fun ledger_run ::
  "config \<Rightarrow> state \<Rightarrow> real \<times> nat \<Rightarrow> (tfvec \<times> real option) list
     \<Rightarrow> error + (state \<times> real \<times> nat)" where
  "ledger_run cfg st ledger [] = Inr (st, ledger)"
| "ledger_run cfg st ledger ((x, t) # obs) =
     (case ledger_step cfg st ledger x t of
        Inl e \<Rightarrow> Inl e
      | Inr (st', ledger') \<Rightarrow> ledger_run cfg st' ledger' obs)"

subsection \<open>Macro clustering\<close>

text \<open>
  \<^verbatim>\<open>_get_distance_matrix\<close>. The data frame, all zeros at first, is a function on
  \<open>(row, column)\<close> labels; it is only ever read at labels of the given clusters.
\<close>

fun matrix_row ::
  "string \<Rightarrow> (string \<times> real) list \<Rightarrow> (nat \<times> microcluster) list \<Rightarrow> nat \<Rightarrow> nat list
     \<Rightarrow> (nat \<times> nat \<Rightarrow> real) \<Rightarrow> error + (nat \<times> nat \<Rightarrow> real)" where
  "matrix_row distance idf clusters row [] distances = Inr distances"
| "matrix_row distance idf clusters row (col # cols) distances =
     (case map_of clusters row of
        None \<Rightarrow> Inl KeyError
      | Some crow \<Rightarrow>
          (case map_of clusters col of
             None \<Rightarrow> Inl KeyError
           | Some ccol \<Rightarrow>
               (case dist distance crow ccol idf of
                  Inl e \<Rightarrow> Inl e
                | Inr d \<Rightarrow>
                    matrix_row distance idf clusters row cols
                      (distances((row, col) := d, (col, row) := d)))))"

fun matrix_rows ::
  "string \<Rightarrow> (string \<times> real) list \<Rightarrow> (nat \<times> microcluster) list \<Rightarrow> nat list
     \<Rightarrow> (nat \<times> nat \<Rightarrow> real) \<Rightarrow> error + (nat \<times> nat \<Rightarrow> real)" where
  "matrix_rows distance idf clusters [] distances = Inr distances"
| "matrix_rows distance idf clusters (row # ids) distances =
     (case matrix_row distance idf clusters row ids distances of
        Inl e \<Rightarrow> Inl e
      | Inr distances' \<Rightarrow> matrix_rows distance idf clusters ids distances')"

definition get_distance_matrix ::
  "config \<Rightarrow> (nat \<times> microcluster) list \<Rightarrow> error + (nat \<times> nat \<Rightarrow> real)" where
  "get_distance_matrix cfg clusters =
     matrix_rows (macro_distance cfg) (calculateIDF (map snd clusters)) clusters
       (map fst clusters) (\<lambda>p. 0)"

text \<open>
  The search of \<^verbatim>\<open>_agglomerative_clustering\<close> for the closest pair of groups. \<^verbatim>\<open>min_dist\<close>
  starts at infinity (\<open>None\<close>) and \<^verbatim>\<open>min_pair\<close> at the empty tuple (\<open>None\<close>);
  \<^verbatim>\<open>distm[c_i][c_j]\<close> reads column \<open>c_i\<close>, row \<open>c_j\<close>.
\<close>

definition pair_step ::
  "(nat \<times> nat \<Rightarrow> real) \<Rightarrow> nat \<Rightarrow> nat \<Rightarrow> nat \<Rightarrow> nat
     \<Rightarrow> real option \<times> (nat \<times> nat) option \<Rightarrow> real option \<times> (nat \<times> nat) option" where
  "pair_step distm i j c_i c_j acc =
     (if (case fst acc of None \<Rightarrow> True | Some m \<Rightarrow> distm (c_j, c_i) < m)
      then (Some (distm (c_j, c_i)), Some (i, j))
      else acc)"

definition find_min_pair ::
  "(nat \<times> nat \<Rightarrow> real) \<Rightarrow> nat list list \<Rightarrow> real option \<times> (nat \<times> nat) option" where
  "find_min_pair distm clusters =
     fold (\<lambda>i. fold (\<lambda>j. fold (\<lambda>c_i. fold (\<lambda>c_j. pair_step distm i j c_i c_j) (clusters ! j))
                              (clusters ! i))
                  [i + 1 ..< length clusters])
       [0 ..< length clusters - 1] (None, None)"

text \<open>
  The loop \<^verbatim>\<open>while len(clusters) != k\<close>. Indexing the empty tuple, or a list out of range,
  raises \<^verbatim>\<open>IndexError\<close>.
\<close>

function agglomerate ::
  "(nat \<times> nat \<Rightarrow> real) \<Rightarrow> nat list list \<Rightarrow> int \<Rightarrow> error + nat list list" where
  "agglomerate distm clusters k =
     (if int (length clusters) \<noteq> k then
        (case snd (find_min_pair distm clusters) of
           None \<Rightarrow> Inl IndexError
         | Some (i, j) \<Rightarrow>
             if i < length clusters \<and> j < length clusters then
               agglomerate distm (del_at j (clusters[i := clusters ! i @ clusters ! j])) k
             else Inl IndexError)
      else Inr clusters)"
  by pat_completeness auto
termination
  by (relation "measure (\<lambda>(distm, clusters, k). length clusters)") (auto simp: del_at_def)

declare agglomerate.simps [simp del]

text \<open>\<^verbatim>\<open>_agglomerative_clustering\<close>: every cluster starts as a group of its own.\<close>

definition agglomerative_clustering ::
  "config \<Rightarrow> (nat \<times> microcluster) list \<Rightarrow> int \<Rightarrow> error + nat list list" where
  "agglomerative_clustering cfg micros k =
     (case get_distance_matrix cfg micros of
        Inl e \<Rightarrow> Inl e
      | Inr distm \<Rightarrow> agglomerate distm (map (\<lambda>key. [key]) (map fst micros)) k)"

text \<open>The assignment \<^verbatim>\<open>microToMacro[x] = i\<close> for every member \<open>x\<close> of group \<open>i\<close>.\<close>

definition build_microToMacro :: "nat list list \<Rightarrow> (nat \<times> nat) list" where
  "build_microToMacro assigned_clusters =
     fold (\<lambda>i. fold (\<lambda>x. AList.update x i) (assigned_clusters ! i))
       [0 ..< length assigned_clusters] []"

text \<open>
  \<^verbatim>\<open>updateMacroClusters\<close>: the assignment is rebuilt, and the cache marked valid, only when
  more than one cluster has a weight above \<^verbatim>\<open>min_weight\<close>.
\<close>

definition updateMacroClusters :: "config \<Rightarrow> state \<Rightarrow> error + state" where
  "updateMacroClusters cfg st =
     (if \<not> up_to_date st then
        (case updateweights cfg st of
           Inl e \<Rightarrow> Inl e
         | Inr st1 \<Rightarrow>
             (let micros = filter (\<lambda>(key, v). min_weight cfg < weight v) (micro_clusters st1);
                  numClusters = min (num_macro cfg) (int (length micros))
              in if 1 < length micros then
                   (case agglomerative_clustering cfg micros numClusters of
                      Inl e \<Rightarrow> Inl e
                    | Inr assigned_clusters \<Rightarrow>
                        Inr (st1\<lparr>microToMacro := Some (build_microToMacro assigned_clusters),
                                 up_to_date := True\<rparr>))
                 else Inr st1))
      else Inr st)"

text \<open>
  The loop of \<^verbatim>\<open>get_macroclusters\<close> over \<^verbatim>\<open>microToMacro.items()\<close>; \<^verbatim>\<open>merge\<close> fades the stored
  micro-cluster as well.
\<close>

fun merge_macros ::
  "config \<Rightarrow> real option \<Rightarrow> (nat \<times> nat) list \<Rightarrow> (nat \<times> microcluster) list
     \<Rightarrow> (nat \<times> microcluster) list
     \<Rightarrow> error + ((nat \<times> microcluster) list \<times> (nat \<times> microcluster) list)" where
  "merge_macros cfg t [] macros mcs = Inr (macros, mcs)"
| "merge_macros cfg t ((key, val) # rest) macros mcs =
     (case map_of macros val of
        None \<Rightarrow> Inl KeyError
      | Some macro \<Rightarrow>
          (case map_of mcs key of
             None \<Rightarrow> Inl KeyError
           | Some micro \<Rightarrow>
               (case merge macro micro t (omega cfg) (fading_factor cfg) (term_fading cfg) of
                  Inl e \<Rightarrow> Inl e
                | Inr (macro', micro') \<Rightarrow>
                    merge_macros cfg t rest
                      (AList.update val (macro'\<lparr>merged_ids := merged_ids macro' @ [mc_id micro']\<rparr>)
                         macros)
                      (AList.update key micro' mcs))))"

text \<open>
  \<^verbatim>\<open>get_macroclusters\<close>: \<^verbatim>\<open>self.microToMacro.items()\<close> raises \<^verbatim>\<open>AttributeError\<close> while
  \<^verbatim>\<open>microToMacro\<close> is still \<^verbatim>\<open>None\<close>.
\<close>

definition get_macroclusters ::
  "config \<Rightarrow> state \<Rightarrow> error + ((nat \<times> microcluster) list \<times> state)" where
  "get_macroclusters cfg st =
     (case updateMacroClusters cfg st of
        Inl e \<Rightarrow> Inl e
      | Inr st1 \<Rightarrow>
          (let numClusters = min (num_macro cfg) (int (length (micro_clusters st1)));
               macros = map (\<lambda>x. (x, new_microcluster [] (st_t st1) 0 (Some x)))
                          [0 ..< nat numClusters]
           in case microToMacro st1 of
                None \<Rightarrow> Inl AttributeError
              | Some mm \<Rightarrow>
                  (case merge_macros cfg (st_t st1) mm macros (micro_clusters st1) of
                     Inl e \<Rightarrow> Inl e
                   | Inr (macros', mcs') \<Rightarrow> Inr (macros', st1\<lparr>micro_clusters := mcs'\<rparr>))))"

subsection \<open>Assignment query\<close>

text \<open>
  The loop of \<^verbatim>\<open>get_assignment\<close> over the store, carrying \<^verbatim>\<open>(dist, closest)\<close>; \<^verbatim>\<open>dist\<close>
  starts at infinity (\<open>None\<close>).
\<close>

fun nearest_scan ::
  "config \<Rightarrow> microcluster \<Rightarrow> (string \<times> real) list \<Rightarrow> (nat \<times> microcluster) list
     \<Rightarrow> real option \<times> nat option \<Rightarrow> error + (real option \<times> nat option)" where
  "nearest_scan cfg mc idf [] acc = Inr acc"
| "nearest_scan cfg mc idf ((key, c) # rest) (d, closest) =
     (if min_weight cfg < weight c then
        (case dist (micro_distance cfg) mc c idf of
           Inl e \<Rightarrow> Inl e
         | Inr cur_dist \<Rightarrow>
             nearest_scan cfg mc idf rest
               (if (case d of None \<Rightarrow> True | Some dd \<Rightarrow> cur_dist < dd)
                then (Some cur_dist, Some key) else (d, closest)))
      else nearest_scan cfg mc idf rest (d, closest))"

text \<open>
  \<^verbatim>\<open>get_assignment(x, type)\<close>. The last line,
  \<^verbatim>\<open>self.microToMacro[assignment] if assignment else None\<close>, tests the truth value of the
  identifier: \<^verbatim>\<open>None\<close> and \<^verbatim>\<open>0\<close> are both false. Subscripting \<^verbatim>\<open>None\<close> raises \<^verbatim>\<open>TypeError\<close>,
  a missing key \<^verbatim>\<open>KeyError\<close>.
\<close>

definition get_assignment ::
  "config \<Rightarrow> state \<Rightarrow> tfvec \<Rightarrow> string \<Rightarrow> error + (nat option \<times> state)" where
  "get_assignment cfg st x type =
     (case updateweights cfg st of
        Inl e \<Rightarrow> Inl e
      | Inr st1 \<Rightarrow>
          (let idf = calculateIDF (map snd (micro_clusters st1))
           in if 0 < length x then
                (let mc = new_microcluster x (Some 1) 1 None
                 in case nearest_scan cfg mc idf (micro_clusters st1) (None, None) of
                      Inl e \<Rightarrow> Inl e
                    | Inr (d, closest) \<Rightarrow>
                        if type = ''micro'' then Inr (closest, st1)
                        else
                          (case updateMacroClusters cfg st1 of
                             Inl e \<Rightarrow> Inl e
                           | Inr st2 \<Rightarrow>
                               (case closest of
                                  None \<Rightarrow> Inr (None, st2)
                                | Some assignment \<Rightarrow>
                                    if assignment = 0 then Inr (None, st2)
                                    else
                                      (case microToMacro st2 of
                                         None \<Rightarrow> Inl TypeError
                                       | Some mm \<Rightarrow>
                                           (case map_of mm assignment of
                                              None \<Rightarrow> Inl KeyError
                                            | Some macro \<Rightarrow> Inr (Some macro, st2))))))
              else Inr (None, st1)))"

text \<open>\<^verbatim>\<open>predict_one(x, type)\<close> copies the input and asks for its assignment.\<close>

definition predict_one ::
  "config \<Rightarrow> state \<Rightarrow> tfvec \<Rightarrow> string \<Rightarrow> error + (nat option \<times> state)" where
  "predict_one cfg st x type = get_assignment cfg st x type"


subsection \<open>Well-formed inputs\<close>

text \<open>
  A Python dict has every key once; the upstream vectoriser supplies non-negative weights;
  an idf mapping covers a vector when it has an entry for each of its terms.
\<close>

definition wf_dict :: "('k \<times> 'v) list \<Rightarrow> bool" where
  "wf_dict d \<longleftrightarrow> distinct (map fst d)"

definition nonneg_weights :: "tfvec \<Rightarrow> bool" where
  "nonneg_weights v \<longleftrightarrow> list_all (\<lambda>kv. 0 \<le> snd kv) v"

definition covers :: "(string \<times> real) list \<Rightarrow> tfvec \<Rightarrow> bool" where
  "covers idf v \<longleftrightarrow> list_all (\<lambda>kv. map_of idf (fst kv) \<noteq> None) v"

subsection \<open>Invariants of the clustering loop\<close>

text \<open>
  The accumulator \<^verbatim>\<open>(min_dist, min_pair)\<close> of the pair search is consistent when both parts
  are set or both are not, has found a pair when both are set, and is in range for \<open>n\<close>
  groups when its pair \<open>(i, j)\<close> has \<open>i < j < n\<close>. A list of groups partitions a set of
  identifiers when the groups are non-empty, share no member and together hold exactly that
  set.
\<close>

definition consistent :: "real option \<times> (nat \<times> nat) option \<Rightarrow> bool" where
  "consistent acc \<longleftrightarrow> (fst acc = None \<longleftrightarrow> snd acc = None)"

definition found :: "real option \<times> (nat \<times> nat) option \<Rightarrow> bool" where
  "found acc \<longleftrightarrow> fst acc \<noteq> None \<and> snd acc \<noteq> None"

definition in_range :: "nat \<Rightarrow> real option \<times> (nat \<times> nat) option \<Rightarrow> bool" where
  "in_range n acc \<longleftrightarrow> (case snd acc of None \<Rightarrow> True | Some (i, j) \<Rightarrow> i < j \<and> j < n)"

definition partitions :: "nat list list \<Rightarrow> nat set \<Rightarrow> bool" where
  "partitions groups ids \<longleftrightarrow>
     (\<forall>g\<in>set groups. g \<noteq> []) \<and> distinct (concat groups) \<and> set (concat groups) = ids"

subsection \<open>Example configuration and states\<close>

text \<open>
  The constructor defaults with \<^verbatim>\<open>radius=0.9\<close>, \<^verbatim>\<open>fading_factor=0\<close>, \<^verbatim>\<open>tgap=100\<close> and
  \<^verbatim>\<open>real_time_fading=False\<close>; then \<^verbatim>\<open>omega\<close> is \<open>2^0 = 1\<close>.
\<close>

definition scenario_cfg :: config where
  "scenario_cfg =
     \<lparr>radius = 9 / 10, fading_factor = 0, tgap = 100, term_fading = True,
      real_time_fading = False, micro_distance = ''tfidf_cosine_distance'',
      macro_distance = ''tfidf_cosine_distance'', num_macro = 3, min_weight = 0,
      auto_r = False, auto_merge = True, sigma = 1\<rparr>"

text \<open>
  The states after ingesting \<^verbatim>\<open>{a:1, b:1}\<close>, \<^verbatim>\<open>{a:1, b:1, c:1}\<close> and \<^verbatim>\<open>{x:1, y:1}\<close> in turn.
  The merge of the second observation fades the term weights with factor 1 and deletes
  them, since each is at most \<^verbatim>\<open>omega\<close>.
\<close>

definition scenario_state1 :: state where
  "scenario_state1 =
     \<lparr>st_t = Some 1, last_cleanup = Some 0, st_n = 2,
      micro_clusters =
        [(0, \<lparr>mc_id = Some 0, weight = 1, mc_time = Some 1, tf = [(''a'', 1), (''b'', 1)],
              oldweight = 0, deltaweight = 0, mc_n = 1, merged_ids = []\<rparr>)],
      microToMacro = None, clusterId = 1, up_to_date = False, dist_mean = 1,
      num_merged_obs = 0\<rparr>"

definition scenario_state2 :: state where
  "scenario_state2 =
     \<lparr>st_t = Some 2, last_cleanup = Some 0, st_n = 3,
      micro_clusters =
        [(0, \<lparr>mc_id = Some 0, weight = 2, mc_time = Some 2, tf = [],
              oldweight = 0, deltaweight = 0, mc_n = 2, merged_ids = []\<rparr>)],
      microToMacro = None, clusterId = 1, up_to_date = False, dist_mean = 1,
      num_merged_obs = 1\<rparr>"

definition scenario_state3 :: state where
  "scenario_state3 =
     \<lparr>st_t = Some 3, last_cleanup = Some 0, st_n = 4,
      micro_clusters =
        [(0, \<lparr>mc_id = Some 0, weight = 2, mc_time = Some 2, tf = [],
              oldweight = 0, deltaweight = 0, mc_n = 2, merged_ids = []\<rparr>),
         (1, \<lparr>mc_id = Some 1, weight = 1, mc_time = Some 3, tf = [(''x'', 1), (''y'', 1)],
              oldweight = 0, deltaweight = 0, mc_n = 1, merged_ids = []\<rparr>)],
      microToMacro = None, clusterId = 2, up_to_date = False, dist_mean = 2,
      num_merged_obs = 1\<rparr>"

text \<open>The state after ingesting \<^verbatim>\<open>{a:2}\<close>, \<^verbatim>\<open>{a:2}\<close> and \<^verbatim>\<open>{b:2}\<close> in turn.\<close>

definition weighted_state :: state where
  "weighted_state =
     \<lparr>st_t = Some 3, last_cleanup = Some 0, st_n = 4,
      micro_clusters =
        [(0, \<lparr>mc_id = Some 0, weight = 2, mc_time = Some 2, tf = [(''a'', 4)],
              oldweight = 0, deltaweight = 0, mc_n = 2, merged_ids = []\<rparr>),
         (1, \<lparr>mc_id = Some 1, weight = 1, mc_time = Some 3, tf = [(''b'', 2)],
              oldweight = 0, deltaweight = 0, mc_n = 1, merged_ids = []\<rparr>)],
      microToMacro = None, clusterId = 2, up_to_date = False, dist_mean = 2,
      num_merged_obs = 1\<rparr>"

text \<open>The same engine with \<^verbatim>\<open>auto_r=True\<close>, and with \<^verbatim>\<open>tgap=1\<close> as well.\<close>

definition adaptive_cfg :: config where
  "adaptive_cfg = scenario_cfg\<lparr>auto_r := True\<rparr>"

definition eager_cfg :: config where
  "eager_cfg = adaptive_cfg\<lparr>tgap := 1\<rparr>"

text \<open>
  An adaptive engine that fades (\<^verbatim>\<open>fading_factor=1\<close>, \<^verbatim>\<open>tgap=2\<close>, so \<^verbatim>\<open>omega\<close> is \<open>1/4\<close>)
  without term fading, and its states along the run \<^verbatim>\<open>{a:1, b:0}\<close>, \<^verbatim>\<open>{a:1, b:0}\<close>,
  \<^verbatim>\<open>{a:0, b:1}\<close>, \<^verbatim>\<open>{a:0, b:1}\<close>, \<^verbatim>\<open>{}\<close>, \<^verbatim>\<open>{}\<close>. The second call creates cluster \<open>1\<close> at
  distance \<open>0\<close> from cluster \<open>0\<close> and runs a cleanup, whose merge pass folds cluster \<open>1\<close>
  into cluster \<open>0\<close>; the fourth call merges into cluster \<open>2\<close> and runs a cleanup; the sixth
  call runs a cleanup on an empty observation, which evicts both clusters.
\<close>

definition merging_cfg :: config where
  "merging_cfg =
     scenario_cfg\<lparr>fading_factor := 1, tgap := 2, term_fading := False, auto_r := True\<rparr>"

definition ledger_state1 :: state where
  "ledger_state1 =
     \<lparr>st_t = Some 1, last_cleanup = Some 0, st_n = 2,
      micro_clusters =
        [(0, \<lparr>mc_id = Some 0, weight = 1, mc_time = Some 1, tf = [(''a'', 1), (''b'', 0)],
              oldweight = 0, deltaweight = 0, mc_n = 1, merged_ids = []\<rparr>)],
      microToMacro = None, clusterId = 1, up_to_date = False, dist_mean = 1,
      num_merged_obs = 0\<rparr>"

definition ledger_state2 :: state where
  "ledger_state2 =
     \<lparr>st_t = Some 2, last_cleanup = Some 2, st_n = 3,
      micro_clusters =
        [(0, \<lparr>mc_id = Some 0, weight = 3 / 2, mc_time = Some 2, tf = [(''a'', 2), (''b'', 0)],
              oldweight = 1 / 2, deltaweight = 1 / 2, mc_n = 1, merged_ids = [Some 1]\<rparr>)],
      microToMacro = None, clusterId = 2, up_to_date = False, dist_mean = 0,
      num_merged_obs = 0\<rparr>"

definition ledger_state3 :: state where
  "ledger_state3 =
     \<lparr>st_t = Some 3, last_cleanup = Some 2, st_n = 4,
      micro_clusters =
        [(0, \<lparr>mc_id = Some 0, weight = 3 / 2, mc_time = Some 2, tf = [(''a'', 2), (''b'', 0)],
              oldweight = 1 / 2, deltaweight = 1 / 2, mc_n = 1, merged_ids = [Some 1]\<rparr>),
         (2, \<lparr>mc_id = Some 2, weight = 1, mc_time = Some 3, tf = [(''a'', 0), (''b'', 1)],
              oldweight = 0, deltaweight = 0, mc_n = 1, merged_ids = []\<rparr>)],
      microToMacro = None, clusterId = 3, up_to_date = False, dist_mean = 1,
      num_merged_obs = 0\<rparr>"

definition ledger_state4 :: state where
  "ledger_state4 =
     \<lparr>st_t = Some 4, last_cleanup = Some 4, st_n = 5,
      micro_clusters =
        [(0, \<lparr>mc_id = Some 0, weight = 3 / 8, mc_time = Some 4, tf = [(''a'', 2), (''b'', 0)],
              oldweight = 3 / 8, deltaweight = - (1 / 8), mc_n = 1, merged_ids = [Some 1]\<rparr>),
         (2, \<lparr>mc_id = Some 2, weight = 1, mc_time = Some 4, tf = [(''a'', 0), (''b'', 2)],
              oldweight = 1, deltaweight = 1, mc_n = 2, merged_ids = []\<rparr>)],
      microToMacro = None, clusterId = 3, up_to_date = False, dist_mean = 0,
      num_merged_obs = 0\<rparr>"

definition ledger_state5 :: state where
  "ledger_state5 = ledger_state4\<lparr>st_t := Some 5, st_n := 6\<rparr>"

definition ledger_state6 :: state where
  "ledger_state6 =
     ledger_state4\<lparr>st_t := Some 6, last_cleanup := Some 6, st_n := 7, micro_clusters := []\<rparr>"

text \<open>
  Three clusters over the same two terms (so every idf weight is \<open>1 + ln (3/3) = 1\<close>): the
  first two point the same way, the third is orthogonal to them.
\<close>

definition example_micros :: "(nat \<times> microcluster) list" where
  "example_micros =
     [(0, new_microcluster [(''a'', 1), (''b'', 0)] (Some 3) 1 (Some 0)),
      (1, new_microcluster [(''a'', 1), (''b'', 0)] (Some 3) 1 (Some 1)),
      (2, new_microcluster [(''a'', 0), (''b'', 1)] (Some 3) 1 (Some 2))]"

text \<open>
  The engine without term fading; the state after ingesting \<^verbatim>\<open>{a:1, b:0}\<close> twice and
  \<^verbatim>\<open>{a:0, b:1}\<close> twice; that state with every cluster faded to the clock; and the latter
  with the macro assignment built.
\<close>

definition macro_cfg :: config where
  "macro_cfg = scenario_cfg\<lparr>term_fading := False\<rparr>"

definition macro_state :: state where
  "macro_state =
     \<lparr>st_t = Some 4, last_cleanup = Some 0, st_n = 5,
      micro_clusters =
        [(0, \<lparr>mc_id = Some 0, weight = 2, mc_time = Some 2, tf = [(''a'', 2), (''b'', 0)],
              oldweight = 0, deltaweight = 0, mc_n = 2, merged_ids = []\<rparr>),
         (1, \<lparr>mc_id = Some 1, weight = 2, mc_time = Some 4, tf = [(''a'', 0), (''b'', 2)],
              oldweight = 0, deltaweight = 0, mc_n = 2, merged_ids = []\<rparr>)],
      microToMacro = None, clusterId = 2, up_to_date = False, dist_mean = 2,
      num_merged_obs = 2\<rparr>"



text \<open>
  The state of the first engine after ingesting \<^verbatim>\<open>{a:2, b:0}\<close> once and \<^verbatim>\<open>{a:0, b:2}\<close>
  twice: cluster \<open>0\<close> has weight \<open>1\<close> and is evicted by the next fading.
\<close>

definition lone_state :: state where
  "lone_state =
     \<lparr>st_t = Some 3, last_cleanup = Some 0, st_n = 4,
      micro_clusters =
        [(0, \<lparr>mc_id = Some 0, weight = 1, mc_time = Some 1, tf = [(''a'', 2), (''b'', 0)],
              oldweight = 0, deltaweight = 0, mc_n = 1, merged_ids = []\<rparr>),
         (1, \<lparr>mc_id = Some 1, weight = 2, mc_time = Some 3, tf = [(''b'', 4)],
              oldweight = 0, deltaweight = 0, mc_n = 2, merged_ids = []\<rparr>)],
      microToMacro = None, clusterId = 2, up_to_date = False, dist_mean = 2,
      num_merged_obs = 1\<rparr>"

section \<open>Properties\<close>

subsection \<open>Fading\<close>

lemma fade_factor_compose:
  "fade_factor ff n1 t0 * fade_factor ff n2 n1 = fade_factor ff n2 t0"
proof -
  have "- ff * (n1 - t0) + - ff * (n2 - n1) = - ff * (n2 - t0)"
    by (simp add: algebra_simps)
  then show ?thesis
    unfolding fade_factor_def by (simp flip: powr_add)
qed

text \<open>
  Decay composes in exact arithmetic. For a micro-cluster whose last update time is \<open>t0\<close>
  and any two times \<open>now1\<close>, \<open>now2\<close>, fading to \<open>now1\<close> and then to \<open>now2\<close> succeeds and
  gives the same cluster weight as fading directly to \<open>now2\<close>: the decay factors
  \<open>2^(-\<lambda>(now1 - t0))\<close> and \<open>2^(-\<lambda>(now2 - now1))\<close> multiply to \<open>2^(-\<lambda>(now2 - t0))\<close>.
  This is a fact about real numbers: the program rounds every product and every power to a
  double, so that its two weights may differ in the last place, and that difference is not
  expressible here.
\<close>

lemma fade_weight_composes_exact:
  assumes "mc_time c = Some t0" and "t0 \<le> now1" and "now1 < now2"
  shows "\<exists>c1 c2 c3.
           fade c (Some now1) om ff tfading = Inr c1 \<and>
           fade c1 (Some now2) om ff tfading = Inr c2 \<and>
           fade c (Some now2) om ff tfading = Inr c3 \<and>
           weight c2 = weight c3"
  using assms fade_factor_compose [of ff now1 t0 now2]
  by (simp add: fade_def mult.assoc)

lemma fade_weight_composes_exact_example:
  "\<exists>c1 c2 c3.
     fade (new_microcluster [(''a'', 4)] (Some 1) 1 (Some 0)) (Some 2) (1/2) 1 True = Inr c1 \<and>
     fade c1 (Some 3) (1/2) 1 True = Inr c2 \<and>
     fade (new_microcluster [(''a'', 4)] (Some 1) 1 (Some 0)) (Some 3) (1/2) 1 True = Inr c3 \<and>
     weight c2 = weight c3 \<and> weight c3 = 1/4"
proof -
  have t: "mc_time (new_microcluster [(''a'', 4)] (Some 1) 1 (Some 0)) = Some 1"
    by (simp add: new_microcluster_def)
  have "(2::real) powr (- 2) = 1 / 4"
    by (simp add: powr_minus_divide)
  then have w: "weight c3 = 1/4"
    if "fade (new_microcluster [(''a'', 4)] (Some 1) 1 (Some 0)) (Some 3) (1/2) 1 True = Inr c3"
    for c3
    using that by (auto simp: fade_def new_microcluster_def fade_factor_def)
  from fade_weight_composes_exact [OF t, of 2 3 "1/2" 1 True] w show ?thesis
    by auto
qed

subsection \<open>Distance\<close>

lemma fold_dist_step:
  "fold (dist_step idf mtf) xs acc =
     (fst acc + (\<Sum>kv\<leftarrow>xs. case map_of idf (fst kv) of None \<Rightarrow> 0
                     | Some i \<Rightarrow> (case map_of mtf (fst kv) of None \<Rightarrow> 0
                                  | Some u \<Rightarrow> (snd kv * i) * (u * i))),
      snd acc + (\<Sum>kv\<leftarrow>xs. case map_of idf (fst kv) of None \<Rightarrow> 0
                     | Some i \<Rightarrow> (snd kv * i)\<^sup>2))"
  by (induction xs arbitrary: acc)
     (auto simp: dist_step_def power2_eq_square algebra_simps split: option.splits)

lemma micro_len_ok:
  "\<forall>kv\<in>set xs. map_of idf (fst kv) \<noteq> None \<Longrightarrow>
     micro_len idf xs acc = Inr (acc + (\<Sum>kv\<leftarrow>xs. (snd kv * the (map_of idf (fst kv)))\<^sup>2))"
  by (induction xs arbitrary: acc) (auto simp: power2_eq_square algebra_simps)

lemma micro_len_KeyError:
  "micro_len idf xs acc = Inl e \<Longrightarrow> e = KeyError \<and> (\<exists>kv\<in>set xs. map_of idf (fst kv) = None)"
  by (induction xs arbitrary: acc) (auto split: option.splits)

lemma sum_list_squares_nonneg: "0 \<le> (\<Sum>x\<leftarrow>xs. ((f x)::real)\<^sup>2)"
  by (induction xs) auto

lemma py_sqrt_sum_squares: "py_sqrt (\<Sum>kv\<leftarrow>xs. (f kv)\<^sup>2) = Inr (sqrt (\<Sum>kv\<leftarrow>xs. (f kv)\<^sup>2))"
  by (simp add: py_sqrt_def sum_list_squares_nonneg not_less)

lemma cauchy_schwarz_list:
  fixes f g :: "'a \<Rightarrow> real"
  shows "(\<Sum>x\<leftarrow>xs. \<bar>f x * g x\<bar>) \<le> sqrt (\<Sum>x\<leftarrow>xs. (f x)\<^sup>2) * sqrt (\<Sum>x\<leftarrow>xs. (g x)\<^sup>2)"
proof (induction xs)
  case Nil
  then show ?case by simp
next
  case (Cons a xs)
  let ?A = "\<Sum>x\<leftarrow>xs. (f x)\<^sup>2" and ?B = "\<Sum>x\<leftarrow>xs. (g x)\<^sup>2"
  have A: "0 \<le> ?A" and B: "0 \<le> ?B" by (simp_all add: sum_list_squares_nonneg)
  have "(sqrt ?A * sqrt ?B + \<bar>f a * g a\<bar>)\<^sup>2 \<le> ((f a)\<^sup>2 + ?A) * ((g a)\<^sup>2 + ?B)"
  proof -
    have "2 * (sqrt ?A * \<bar>g a\<bar>) * (sqrt ?B * \<bar>f a\<bar>) \<le> (sqrt ?A * \<bar>g a\<bar>)\<^sup>2 + (sqrt ?B * \<bar>f a\<bar>)\<^sup>2"
      by (rule sum_squares_bound)
    also have "\<dots> = ?A * (g a)\<^sup>2 + ?B * (f a)\<^sup>2"
      using A B by (simp add: power_mult_distrib)
    finally have "2 * sqrt ?A * sqrt ?B * \<bar>f a * g a\<bar> \<le> ?A * (g a)\<^sup>2 + ?B * (f a)\<^sup>2"
      by (simp add: abs_mult mult_ac)
    moreover have "(sqrt ?A * sqrt ?B)\<^sup>2 = ?A * ?B"
      using A B by (simp add: power_mult_distrib)
    ultimately show ?thesis
      by (simp add: power2_sum algebra_simps abs_mult power_mult_distrib)
  qed
  then have "sqrt ?A * sqrt ?B + \<bar>f a * g a\<bar> \<le> sqrt (((f a)\<^sup>2 + ?A) * ((g a)\<^sup>2 + ?B))"
    by (rule real_le_rsqrt)
  with Cons show ?case
    by (simp add: real_sqrt_mult)
qed

lemma cauchy_schwarz_sum:
  fixes f g :: "'a \<Rightarrow> real"
  assumes "finite K"
  shows "(\<Sum>k\<in>K. \<bar>f k * g k\<bar>) \<le> sqrt (\<Sum>k\<in>K. (f k)\<^sup>2) * sqrt (\<Sum>k\<in>K. (g k)\<^sup>2)"
proof -
  obtain ks where ks: "set ks = K" "distinct ks"
    using assms finite_distinct_list by blast
  then have "\<And>h::'a \<Rightarrow> real. sum h K = (\<Sum>k\<leftarrow>ks. h k)"
    by (metis sum_list_distinct_conv_sum_set)
  then show ?thesis
    using cauchy_schwarz_list [of f g ks] by simp
qed

lemma sum_list_dict:
  fixes F :: "'k \<Rightarrow> 'v \<Rightarrow> real"
  assumes "distinct (map fst xs)"
  shows "(\<Sum>kv\<leftarrow>xs. F (fst kv) (snd kv)) = (\<Sum>k\<in>fst ` set xs. F k (the (map_of xs k)))"
  using assms
proof (induction xs)
  case Nil
  then show ?case by simp
next
  case (Cons p xs)
  have "(\<Sum>k\<in>fst ` set xs. F k (the (map_of (p # xs) k)))
        = (\<Sum>k\<in>fst ` set xs. F k (the (map_of xs k)))"
  proof (rule sum.cong)
    fix k assume "k \<in> fst ` set xs"
    moreover from Cons.prems have "fst p \<notin> fst ` set xs" by simp
    ultimately have "k \<noteq> fst p" by blast
    then show "F k (the (map_of (p # xs) k)) = F k (the (map_of xs k))" by simp
  qed simp
  with Cons show ?case by simp
qed

lemma py_round_zero: "py_round 0 nd = 0"
  by (simp add: py_round_def)

lemma py_round_one: "py_round 1 nd = 1"
  by (simp add: py_round_def)

lemma py_round_unit:
  assumes "0 \<le> x" "x \<le> 1"
  shows "0 \<le> py_round x nd \<and> py_round x nd \<le> 1"
proof -
  define s where "s = x * 10 ^ nd"
  define f where "f = \<lfloor>s\<rfloor>"
  have s0: "0 \<le> s" and s1: "s \<le> 10 ^ nd"
    using assms by (simp_all add: s_def mult_left_le_one_le)
  have f0: "0 \<le> f" using s0 by (simp add: f_def)
  have f1: "f \<le> 10 ^ nd"
  proof -
    have "f \<le> \<lfloor>(10::real) ^ nd\<rfloor>" unfolding f_def using s1 by (rule floor_mono)
    also have "\<lfloor>(10::real) ^ nd\<rfloor> = 10 ^ nd" by simp
    finally show ?thesis .
  qed
  have up: "real_of_int f + 1 \<le> 10 ^ nd" if "1 / 2 \<le> s - of_int f"
  proof -
    have "f \<noteq> 10 ^ nd"
    proof
      assume "f = 10 ^ nd"
      then have "s - of_int f \<le> 0" using s1 by simp
      with that show False by simp
    qed
    with f1 have "f + 1 \<le> 10 ^ nd" by simp
    then have "real_of_int (f + 1) \<le> real_of_int (10 ^ nd)" by (rule of_int_le_iff [THEN iffD2])
    then show ?thesis by simp
  qed
  have "0 \<le> py_round x nd"
    using f0 by (simp add: py_round_def Let_def s_def [symmetric] f_def [symmetric])
  moreover have "py_round x nd \<le> 1"
    using f1 up
    by (auto simp: py_round_def Let_def s_def [symmetric] f_def [symmetric] divide_le_eq_1 not_less
        intro: order_trans [of _ "real_of_int f + 1"])
  ultimately show ?thesis ..
qed

lemma dist_value:
  assumes ca: "covers idf (tf a)" and cb: "covers idf (tf b)"
  defines "S \<equiv> (\<Sum>kv\<leftarrow>tf a. case map_of (tf b) (fst kv) of None \<Rightarrow> 0
               | Some u \<Rightarrow> (snd kv * the (map_of idf (fst kv))) * (u * the (map_of idf (fst kv))))"
      and "La \<equiv> (\<Sum>kv\<leftarrow>tf a. (snd kv * the (map_of idf (fst kv)))\<^sup>2)"
      and "Lb \<equiv> (\<Sum>kv\<leftarrow>tf b. (snd kv * the (map_of idf (fst kv)))\<^sup>2)"
  shows "tfidf_cosine_distance a b idf =
           Inr (if sqrt La = 0 \<or> sqrt Lb = 0 then 1 else py_round (1 - S / (sqrt La * sqrt Lb)) 10)"
proof -
  have 1: "(\<Sum>kv\<leftarrow>tf a. case map_of idf (fst kv) of None \<Rightarrow> 0
               | Some i \<Rightarrow> (case map_of (tf b) (fst kv) of None \<Rightarrow> 0
                            | Some u \<Rightarrow> (snd kv * i) * (u * i))) = S"
    unfolding S_def using ca
    by (intro arg_cong [where f = sum_list] map_cong)
       (fastforce simp: covers_def list_all_iff split: option.splits)+
  have 2: "(\<Sum>kv\<leftarrow>tf a. case map_of idf (fst kv) of None \<Rightarrow> 0 | Some i \<Rightarrow> (snd kv * i)\<^sup>2) = La"
    unfolding La_def using ca
    by (intro arg_cong [where f = sum_list] map_cong)
       (fastforce simp: covers_def list_all_iff split: option.splits)+
  have 3: "micro_len idf (tf b) 0 = Inr Lb"
    unfolding Lb_def using cb micro_len_ok [of "tf b" idf 0] by (simp add: covers_def list_all_iff)
  have 4: "py_sqrt La = Inr (sqrt La)" "py_sqrt Lb = Inr (sqrt Lb)"
    unfolding La_def Lb_def by (rule py_sqrt_sum_squares)+
  show ?thesis
    by (simp add: tfidf_cosine_distance_def fold_dist_step 1 2 3 4)
qed

lemma dot_as_set_sum:
  fixes g :: "string \<Rightarrow> real"
  assumes "wf_dict a" "wf_dict b"
  shows "(\<Sum>kv\<leftarrow>a. case map_of b (fst kv) of None \<Rightarrow> 0
               | Some u \<Rightarrow> (snd kv * g (fst kv)) * (u * g (fst kv)))
         = (\<Sum>k\<in>fst ` set a \<inter> fst ` set b.
               (the (map_of a k) * g k) * (the (map_of b k) * g k))"
proof -
  let ?F = "\<lambda>k v. case map_of b k of None \<Rightarrow> 0 | Some u \<Rightarrow> (v * g k) * (u * g k)"
  have "(\<Sum>kv\<leftarrow>a. ?F (fst kv) (snd kv)) = (\<Sum>k\<in>fst ` set a. ?F k (the (map_of a k)))"
    using assms(1) unfolding wf_dict_def by (rule sum_list_dict)
  also have "\<dots> = (\<Sum>k\<in>fst ` set a \<inter> fst ` set b.
                     (the (map_of a k) * g k) * (the (map_of b k) * g k))"
  proof (rule sum.mono_neutral_cong_right)
    show "\<forall>k\<in>fst ` set a - fst ` set a \<inter> fst ` set b. ?F k (the (map_of a k)) = 0"
      by (auto simp: map_of_eq_None_iff [THEN iffD2])
    show "?F k (the (map_of a k)) = (the (map_of a k) * g k) * (the (map_of b k) * g k)"
      if "k \<in> fst ` set a \<inter> fst ` set b" for k
    proof -
      from that have "map_of b k \<noteq> None" by (simp add: map_of_eq_None_iff)
      then show ?thesis by auto
    qed
  qed auto
  finally show ?thesis .
qed

lemma len_as_set_sum:
  fixes g :: "string \<Rightarrow> real"
  assumes "wf_dict a"
  shows "(\<Sum>kv\<leftarrow>a. (snd kv * g (fst kv))\<^sup>2) = (\<Sum>k\<in>fst ` set a. (the (map_of a k) * g k)\<^sup>2)"
  using assms sum_list_dict [of a "\<lambda>k v. (v * g k)\<^sup>2"] by (simp add: wf_dict_def)

lemma the_map_of_nonneg:
  assumes "nonneg_weights a" "k \<in> fst ` set a"
  shows "0 \<le> the (map_of a k)"
proof -
  from assms(2) obtain v where "map_of a k = Some v"
    by (metis map_of_eq_None_iff not_Some_eq)
  moreover from this have "(k, v) \<in> set a" by (rule map_of_SomeD)
  ultimately show ?thesis using assms(1) by (auto simp: nonneg_weights_def list_all_iff)
qed

lemma dot_bounds:
  fixes g :: "string \<Rightarrow> real"
  assumes "wf_dict a" "wf_dict b" "nonneg_weights a" "nonneg_weights b"
  defines "S \<equiv> (\<Sum>kv\<leftarrow>a. case map_of b (fst kv) of None \<Rightarrow> 0
               | Some u \<Rightarrow> (snd kv * g (fst kv)) * (u * g (fst kv)))"
      and "La \<equiv> (\<Sum>kv\<leftarrow>a. (snd kv * g (fst kv))\<^sup>2)"
      and "Lb \<equiv> (\<Sum>kv\<leftarrow>b. (snd kv * g (fst kv))\<^sup>2)"
  shows "0 \<le> S" and "S \<le> sqrt La * sqrt Lb"
proof -
  let ?K = "fst ` set a \<inter> fst ` set b"
  let ?x = "\<lambda>k. the (map_of a k) * g k" and ?y = "\<lambda>k. the (map_of b k) * g k"
  have S: "S = (\<Sum>k\<in>?K. ?x k * ?y k)"
    unfolding S_def using assms(1,2) by (rule dot_as_set_sum)
  have La: "La = (\<Sum>k\<in>fst ` set a. (?x k)\<^sup>2)"
    unfolding La_def using assms(1) by (rule len_as_set_sum)
  have Lb: "Lb = (\<Sum>k\<in>fst ` set b. (?y k)\<^sup>2)"
    unfolding Lb_def using assms(2) by (rule len_as_set_sum)
  have nn: "0 \<le> ?x k * ?y k" if "k \<in> ?K" for k
  proof -
    from that have "0 \<le> the (map_of a k)" "0 \<le> the (map_of b k)"
      using assms(3,4) by (auto intro: the_map_of_nonneg)
    then have "0 \<le> (the (map_of a k) * the (map_of b k)) * (g k * g k)"
      by simp
    then show ?thesis by (simp add: mult_ac)
  qed
  show "0 \<le> S" unfolding S by (rule sum_nonneg) (rule nn)
  have "S \<le> (\<Sum>k\<in>?K. \<bar>?x k * ?y k\<bar>)"
    unfolding S by (rule sum_mono) simp
  also have "\<dots> \<le> sqrt (\<Sum>k\<in>?K. (?x k)\<^sup>2) * sqrt (\<Sum>k\<in>?K. (?y k)\<^sup>2)"
    by (rule cauchy_schwarz_sum) simp
  also have "\<dots> \<le> sqrt La * sqrt Lb"
  proof (rule mult_mono)
    show "sqrt (\<Sum>k\<in>?K. (?x k)\<^sup>2) \<le> sqrt La"
      unfolding La by (intro real_sqrt_le_mono sum_mono2) auto
    show "sqrt (\<Sum>k\<in>?K. (?y k)\<^sup>2) \<le> sqrt Lb"
      unfolding Lb by (intro real_sqrt_le_mono sum_mono2) auto
    show "0 \<le> sqrt La" unfolding La by (simp add: sum_nonneg)
    show "0 \<le> sqrt (\<Sum>k\<in>?K. (?y k)\<^sup>2)" by (simp add: sum_nonneg)
  qed
  finally show "S \<le> sqrt La * sqrt Lb" .
qed

lemma dot_commute:
  fixes g :: "string \<Rightarrow> real"
  assumes "wf_dict a" "wf_dict b"
  shows "(\<Sum>kv\<leftarrow>a. case map_of b (fst kv) of None \<Rightarrow> 0
               | Some u \<Rightarrow> (snd kv * g (fst kv)) * (u * g (fst kv)))
       = (\<Sum>kv\<leftarrow>b. case map_of a (fst kv) of None \<Rightarrow> 0
               | Some u \<Rightarrow> (snd kv * g (fst kv)) * (u * g (fst kv)))"
  unfolding dot_as_set_sum [OF assms] dot_as_set_sum [OF assms(2,1)]
  by (simp add: Int_commute mult.commute)

lemma dot_self:
  fixes g :: "string \<Rightarrow> real"
  assumes "wf_dict a"
  shows "(\<Sum>kv\<leftarrow>a. case map_of a (fst kv) of None \<Rightarrow> 0
               | Some u \<Rightarrow> (snd kv * g (fst kv)) * (u * g (fst kv)))
       = (\<Sum>kv\<leftarrow>a. (snd kv * g (fst kv))\<^sup>2)"
proof (rule arg_cong [where f = sum_list], rule map_cong)
  fix kv assume "kv \<in> set a"
  with assms have "map_of a (fst kv) = Some (snd kv)"
    by (simp add: wf_dict_def)
  then show "(case map_of a (fst kv) of None \<Rightarrow> 0
               | Some u \<Rightarrow> (snd kv * g (fst kv)) * (u * g (fst kv))) = (snd kv * g (fst kv))\<^sup>2"
    by (simp add: power2_eq_square)
qed simp

lemma micro_len_not_covers:
  "\<not> covers idf xs \<Longrightarrow> micro_len idf xs acc = Inl KeyError"
  by (induction xs arbitrary: acc) (auto simp: covers_def split: option.splits)

lemma micro_len_covers:
  "covers idf xs \<Longrightarrow>
     micro_len idf xs acc = Inr (acc + (\<Sum>kv\<leftarrow>xs. (snd kv * the (map_of idf (fst kv)))\<^sup>2))"
  using micro_len_ok [of xs idf acc] by (simp add: covers_def list_all_iff)

lemma first_len_nonneg:
  "0 \<le> (\<Sum>kv\<leftarrow>xs. case map_of idf (fst kv) of None \<Rightarrow> 0 | Some i \<Rightarrow> ((snd kv * i)::real)\<^sup>2)"
  by (induction xs) (auto split: option.splits)

text \<open>
  Claim C5, as amended. The distance returns a number for every pair of term-weight vectors
  and every idf mapping that has an entry for each term of the second vector (terms of the
  first vector without an idf entry are skipped); when the second vector holds a term that
  is absent from the idf mapping, the computation raises \<^verbatim>\<open>KeyError\<close>.
\<close>

theorem tfidf_cosine_distance_total_iff:
  "(covers idf (tf b) \<longrightarrow> (\<exists>d. tfidf_cosine_distance a b idf = Inr d)) \<and>
   (\<not> covers idf (tf b) \<longrightarrow> tfidf_cosine_distance a b idf = Inl KeyError)"
proof (intro conjI impI)
  let ?l = "\<Sum>kv\<leftarrow>tf a. case map_of idf (fst kv) of None \<Rightarrow> 0 | Some i \<Rightarrow> (snd kv * i)\<^sup>2"
  have l: "py_sqrt ?l = Inr (sqrt ?l)"
    using first_len_nonneg [of idf "tf a"] by (simp add: py_sqrt_def not_less)
  {
    assume "covers idf (tf b)"
    then have "micro_len idf (tf b) 0 = Inr (\<Sum>kv\<leftarrow>tf b. (snd kv * the (map_of idf (fst kv)))\<^sup>2)"
      by (simp add: micro_len_covers)
    then show "\<exists>d. tfidf_cosine_distance a b idf = Inr d"
      by (simp add: tfidf_cosine_distance_def fold_dist_step l py_sqrt_sum_squares)
  }
  {
    assume "\<not> covers idf (tf b)"
    then have "micro_len idf (tf b) 0 = Inl KeyError"
      by (rule micro_len_not_covers)
    then show "tfidf_cosine_distance a b idf = Inl KeyError"
      by (simp add: tfidf_cosine_distance_def fold_dist_step l)
  }
qed

theorem tfidf_cosine_distance_total_iff_witness:
  "(\<exists>d. tfidf_cosine_distance (new_microcluster [(''a'', 1), (''z'', 5)] (Some 1) 1 None)
          (new_microcluster [(''a'', 2)] (Some 1) 1 (Some 0)) [(''a'', 1)] = Inr d) \<and>
   tfidf_cosine_distance (new_microcluster [(''a'', 1)] (Some 1) 1 None)
     (new_microcluster [(''a'', 2), (''z'', 5)] (Some 1) 1 (Some 0)) [(''a'', 1)] = Inl KeyError"
  using tfidf_cosine_distance_total_iff [of "[(''a'', 1)]"
          "new_microcluster [(''a'', 2)] (Some 1) 1 (Some 0)"
          "new_microcluster [(''a'', 1), (''z'', 5)] (Some 1) 1 None"]
        tfidf_cosine_distance_total_iff [of "[(''a'', 1)]"
          "new_microcluster [(''a'', 2), (''z'', 5)] (Some 1) 1 (Some 0)"
          "new_microcluster [(''a'', 1)] (Some 1) 1 None"]
  by (simp add: covers_def new_microcluster_def)

text \<open>
  Claim C5 as stated fails: with the empty idf mapping and a second vector holding the term
  \<open>a\<close>, the unguarded read \<^verbatim>\<open>idf[k]\<close> of the second loop raises \<^verbatim>\<open>KeyError\<close>.
\<close>

theorem tfidf_cosine_distance_KeyError:
  "tfidf_cosine_distance (new_microcluster [] (Some 1) 1 None)
     (new_microcluster [(''a'', 1)] (Some 1) 1 (Some 0)) [] = Inl KeyError"
  by (simp add: tfidf_cosine_distance_def new_microcluster_def py_sqrt_def)

text \<open>
  The distance in exact arithmetic. For term-weight vectors \<open>A\<close>, \<open>B\<close> with non-negative
  weights whose terms all have idf entries, the distance is a number in \<open>[0, 1]\<close>, it is
  the same in both argument orders, and the distance of \<open>A\<close> to itself is \<open>0\<close> whenever the
  squared norm of \<open>A\<close> under the idf weighting is not \<open>0\<close>. This is a fact about real
  numbers: the program adds the products in the iteration order of its first argument and
  rounds each step to a double, so that the two argument orders may give values that differ
  in the tenth decimal, and squares that overflow give \<^verbatim>\<open>nan\<close>; neither is expressible
  here.
\<close>

lemma tfidf_cosine_distance_bounds_exact:
  assumes wf: "wf_dict (tf a)" "wf_dict (tf b)"
      and nn: "nonneg_weights (tf a)" "nonneg_weights (tf b)"
      and cov: "covers idf (tf a)" "covers idf (tf b)"
  shows "\<exists>d. tfidf_cosine_distance a b idf = Inr d \<and> 0 \<le> d \<and> d \<le> 1 \<and>
             tfidf_cosine_distance b a idf = Inr d \<and>
             (micro_len idf (tf a) 0 \<noteq> Inr 0 \<longrightarrow> tfidf_cosine_distance a a idf = Inr 0)"
proof -
  let ?g = "\<lambda>k. the (map_of idf k)"
  let ?S = "\<lambda>x y. (\<Sum>kv\<leftarrow>x. case map_of y (fst kv) of None \<Rightarrow> 0
               | Some u \<Rightarrow> (snd kv * ?g (fst kv)) * (u * ?g (fst kv)))"
  let ?L = "\<lambda>x. (\<Sum>kv\<leftarrow>x. (snd kv * ?g (fst kv))\<^sup>2)"
  let ?d = "if sqrt (?L (tf a)) = 0 \<or> sqrt (?L (tf b)) = 0 then 1
            else py_round (1 - ?S (tf a) (tf b) / (sqrt (?L (tf a)) * sqrt (?L (tf b)))) 10"
  have ab: "tfidf_cosine_distance a b idf = Inr ?d"
    using cov by (rule dist_value)
  have "?S (tf b) (tf a) = ?S (tf a) (tf b)"
    using wf(2,1) by (rule dot_commute)
  then have ba: "tfidf_cosine_distance b a idf = Inr ?d"
    using dist_value [OF cov(2,1)] by (simp add: mult.commute disj_commute)
  have bounds: "0 \<le> ?d \<and> ?d \<le> 1"
  proof (cases "sqrt (?L (tf a)) = 0 \<or> sqrt (?L (tf b)) = 0")
    case True
    then show ?thesis by simp
  next
    case False
    have La: "0 \<le> ?L (tf a)" and Lb: "0 \<le> ?L (tf b)"
      by (rule sum_list_squares_nonneg)+
    with False have pos: "0 < sqrt (?L (tf a)) * sqrt (?L (tf b))"
      by (simp add: zero_less_mult_iff less_le)
    have "0 \<le> ?S (tf a) (tf b)" "?S (tf a) (tf b) \<le> sqrt (?L (tf a)) * sqrt (?L (tf b))"
      using wf nn by (rule dot_bounds)+
    with pos have "0 \<le> 1 - ?S (tf a) (tf b) / (sqrt (?L (tf a)) * sqrt (?L (tf b)))"
      and "1 - ?S (tf a) (tf b) / (sqrt (?L (tf a)) * sqrt (?L (tf b))) \<le> 1"
      by (simp_all add: divide_le_eq)
    then show ?thesis using False py_round_unit by simp
  qed
  have aa: "tfidf_cosine_distance a a idf = Inr 0" if "micro_len idf (tf a) 0 \<noteq> Inr 0"
  proof -
    from that cov(1) have nz: "?L (tf a) \<noteq> 0"
      by (simp add: micro_len_covers)
    have "?S (tf a) (tf a) = ?L (tf a)"
      using wf(1) by (rule dot_self)
    moreover have "sqrt (?L (tf a)) * sqrt (?L (tf a)) = ?L (tf a)"
      using sum_list_squares_nonneg [of "\<lambda>kv. snd kv * ?g (fst kv)" "tf a"] by simp
    ultimately show ?thesis
      using nz dist_value [OF cov(1) cov(1)] by (simp add: py_round_zero)
  qed
  from ab ba bounds aa show ?thesis by blast
qed

lemma sqrt_25: "sqrt 25 = 5"
  using real_sqrt_abs [of 5] by simp

lemma tfidf_cosine_distance_bounds_exact_example:
  "tfidf_cosine_distance (new_microcluster [(''a'', 3), (''b'', 4)] (Some 1) 1 None)
     (new_microcluster [(''a'', 4), (''b'', 3)] (Some 1) 1 (Some 0)) [(''a'', 1), (''b'', 1)]
     = Inr (1 / 25) \<and>
   tfidf_cosine_distance (new_microcluster [(''a'', 4), (''b'', 3)] (Some 1) 1 (Some 0))
     (new_microcluster [(''a'', 3), (''b'', 4)] (Some 1) 1 None) [(''a'', 1), (''b'', 1)]
     = Inr (1 / 25) \<and>
   tfidf_cosine_distance (new_microcluster [(''a'', 3), (''b'', 4)] (Some 1) 1 None)
     (new_microcluster [(''a'', 3), (''b'', 4)] (Some 1) 1 None) [(''a'', 1), (''b'', 1)]
     = Inr 0"
proof -
  let ?a = "new_microcluster [(''a'', 3), (''b'', 4)] (Some 1) 1 None"
  let ?b = "new_microcluster [(''a'', 4), (''b'', 3)] (Some 1) 1 (Some 0)"
  let ?idf = "[(''a'', 1), (''b'', 1)] :: (string \<times> real) list"
  have v: "tfidf_cosine_distance ?a ?b ?idf = Inr (1 / 25)"
    by (simp add: tfidf_cosine_distance_def new_microcluster_def dist_step_def py_sqrt_def
        sqrt_25 py_round_def)
  have "micro_len ?idf (tf ?a) 0 \<noteq> Inr 0"
    by (simp add: new_microcluster_def)
  with tfidf_cosine_distance_bounds_exact [of ?a ?b ?idf] v show ?thesis
    by (auto simp: wf_dict_def nonneg_weights_def covers_def new_microcluster_def)
qed

subsection \<open>Evaluating the engine\<close>

lemmas eval_defs = learn_one_def set_clock_def ingest_def get_closest_mc_def calculateIDF_def count_terms_def
  count_term_def dist_def tfidf_cosine_distance_def dist_step_def py_sqrt_def cleanup_due_def
  new_microcluster_def omega_def merge_def fade_def fade_factor_def fade_tf_def add_term_def

text \<open>
  Claim C4. From the empty engine with radius \<open>0.9\<close>, the logical clock, decay rate \<open>0\<close>
  and \<^verbatim>\<open>tgap = 100\<close>, the three observations yield exactly two micro-clusters: the second
  observation merges into cluster \<open>0\<close>, which ends with observation count \<open>2\<close> and no
  merged ids, and the third creates cluster \<open>1\<close> with observation count \<open>1\<close>.
\<close>

theorem end_to_end_scenario:
  "learn_one scenario_cfg init_state [(''a'', 1), (''b'', 1)] None
     = Inr (Some 0, scenario_state1) \<and>
   learn_one scenario_cfg scenario_state1 [(''a'', 1), (''b'', 1), (''c'', 1)] None
     = Inr (Some 0, scenario_state2) \<and>
   learn_one scenario_cfg scenario_state2 [(''x'', 1), (''y'', 1)] None
     = Inr (Some 1, scenario_state3) \<and>
   map fst (micro_clusters scenario_state1) = [0] \<and>
   map (\<lambda>(key, c). (key, mc_n c, merged_ids c)) (micro_clusters scenario_state3)
     = [(0, 2, []), (1, 1, [])]"
proof -
  have "learn_one scenario_cfg init_state [(''a'', 1), (''b'', 1)] None
          = Inr (Some 0, scenario_state1)"
    by (simp add: eval_defs scenario_cfg_def init_state_def scenario_state1_def)
  moreover have "learn_one scenario_cfg scenario_state1 [(''a'', 1), (''b'', 1), (''c'', 1)] None
          = Inr (Some 0, scenario_state2)"
    by (simp add: eval_defs scenario_cfg_def scenario_state1_def scenario_state2_def
        py_round_zero)
  moreover have "learn_one scenario_cfg scenario_state2 [(''x'', 1), (''y'', 1)] None
          = Inr (Some 1, scenario_state3)"
    by (simp add: eval_defs scenario_cfg_def scenario_state2_def scenario_state3_def)
  ultimately show ?thesis
    by (simp add: scenario_state1_def scenario_state3_def)
qed

subsection \<open>Macro queries on an engine without a macro assignment\<close>

text \<open>
  Claim C3 does not hold of the code. On the engine as constructed no cluster qualifies,
  \<^verbatim>\<open>updateMacroClusters\<close> leaves \<^verbatim>\<open>microToMacro\<close> at \<^verbatim>\<open>None\<close>, and \<^verbatim>\<open>get_macroclusters\<close>
  raises \<^verbatim>\<open>AttributeError\<close> on \<^verbatim>\<open>self.microToMacro.items()\<close>, whatever the configuration.
\<close>

theorem get_macroclusters_fresh_engine:
  "get_macroclusters cfg init_state = Inl AttributeError"
  by (simp add: get_macroclusters_def updateMacroClusters_def updateweights_def init_state_def)


lemma macro_assignment_single_cluster:
  "get_assignment scenario_cfg lone_state [(''b'', 2)] ''micro''
     = Inr (Some 1, lone_state\<lparr>micro_clusters := [hd (tl (micro_clusters lone_state))]\<rparr>) \<and>
   get_assignment scenario_cfg lone_state [(''b'', 2)] ''macro'' = Inl TypeError"
  by (simp add: get_assignment_def updateMacroClusters_def updateweights_def evicted_def
      eval_defs scenario_cfg_def lone_state_def py_round_zero)

subsection \<open>The assignment query and the store\<close>

text \<open>
  Claim C2 as stated fails: \<^verbatim>\<open>get_assignment\<close> calls \<^verbatim>\<open>_updateweights\<close>, which evicts. After
  the first observation of the scenario the store holds cluster \<open>0\<close> with weight \<open>1\<close>, which
  is not above \<^verbatim>\<open>omega = 1\<close>; a micro-level query leaves the store empty.
\<close>

theorem get_assignment_evicts:
  "map fst (micro_clusters scenario_state1) = [0] \<and>
   get_assignment scenario_cfg scenario_state1 [(''a'', 1)] ''micro''
     = Inr (None, scenario_state1\<lparr>micro_clusters := []\<rparr>)"
  by (simp add: get_assignment_def updateweights_def evicted_def eval_defs scenario_cfg_def
      scenario_state1_def)

lemma fade_all_keys:
  "fade_all t om ff tfading mcs = Inr mcs' \<Longrightarrow> map fst mcs' = map fst mcs"
  by (induction mcs arbitrary: mcs') (auto split: sum.splits)

lemma fade_tf_idem: "fade_tf 1 om (fade_tf f om tfv) = fade_tf f om tfv"
  by (induction tfv) (auto simp: fade_tf_def)

lemma fade_twice:
  assumes "fade c t om ff tfading = Inr c'"
  shows "fade c' t om ff tfading = Inr c'"
proof -
  from assms obtain tn tm where t: "t = Some tn" "mc_time c = Some tm"
    by (auto simp: fade_def split: option.splits)
  with assms have c': "c' = c\<lparr>weight := weight c * fade_factor ff tn tm,
      tf := (if tfading then fade_tf (fade_factor ff tn tm) om (tf c) else tf c),
      mc_time := Some tn\<rparr>"
    by (simp add: fade_def)
  have "fade_factor ff tn tn = 1" by (simp add: fade_factor_def)
  then show ?thesis
    by (simp add: fade_def t c' fade_tf_idem)
qed

lemma fade_all_twice:
  "fade_all t om ff tfading mcs = Inr mcs' \<Longrightarrow> fade_all t om ff tfading mcs' = Inr mcs'"
  by (induction mcs arbitrary: mcs') (auto split: sum.splits simp: fade_twice)

lemma fade_all_filter:
  "fade_all t om ff tfading mcs = Inr mcs \<Longrightarrow>
     fade_all t om ff tfading (filter P mcs) = Inr (filter P mcs)"
  by (induction mcs) (auto split: sum.splits)

lemma updateweights_idem:
  assumes "updateweights cfg st = Inr st1"
  shows "updateweights cfg st1 = Inr st1"
proof -
  from assms obtain mcs where
    f: "fade_all (st_t st) (omega cfg) (fading_factor cfg) (term_fading cfg) (micro_clusters st)
          = Inr mcs"
    and st1: "st1 = st\<lparr>micro_clusters := filter (\<lambda>(key, c). \<not> evicted cfg c) mcs\<rparr>"
    by (auto simp: updateweights_def split: sum.splits)
  from f have "fade_all (st_t st) (omega cfg) (fading_factor cfg) (term_fading cfg) mcs = Inr mcs"
    by (rule fade_all_twice)
  then have "fade_all (st_t st) (omega cfg) (fading_factor cfg) (term_fading cfg)
               (filter (\<lambda>(key, c). \<not> evicted cfg c) mcs)
             = Inr (filter (\<lambda>(key, c). \<not> evicted cfg c) mcs)"
    by (rule fade_all_filter)
  then show ?thesis
    by (simp add: updateweights_def st1)
qed

lemma updateMacroClusters_store:
  assumes "updateweights cfg st = Inr st1" "updateMacroClusters cfg st1 = Inr st2"
  shows "micro_clusters st2 = micro_clusters st1"
  using assms(2) updateweights_idem [OF assms(1)]
  by (auto simp: updateMacroClusters_def Let_def split: if_splits sum.splits)

text \<open>
  Claim C2, as amended. Whenever the assignment query returns, at micro or macro level, the
  store it leaves is the store it found with every cluster faded to the clock and with
  exactly the clusters removed whose faded weight is at most \<^verbatim>\<open>omega\<close> or whose faded term
  vector is empty; no identifier is added and the remaining ones keep their order.
\<close>

theorem get_assignment_store:
  assumes "get_assignment cfg st x type = Inr (r, st')"
  shows "\<exists>mcs. fade_all (st_t st) (omega cfg) (fading_factor cfg) (term_fading cfg)
                 (micro_clusters st) = Inr mcs \<and>
               map fst mcs = map fst (micro_clusters st) \<and>
               micro_clusters st' = filter (\<lambda>(key, c). \<not> evicted cfg c) mcs"
proof -
  from assms obtain st1 where u: "updateweights cfg st = Inr st1"
    by (auto simp: get_assignment_def split: sum.splits)
  then obtain mcs where
    f: "fade_all (st_t st) (omega cfg) (fading_factor cfg) (term_fading cfg) (micro_clusters st)
          = Inr mcs"
    and st1: "micro_clusters st1 = filter (\<lambda>(key, c). \<not> evicted cfg c) mcs"
    by (auto simp: updateweights_def split: sum.splits)
  have "micro_clusters st' = micro_clusters st1"
    using assms u updateMacroClusters_store [OF u]
    by (auto simp: get_assignment_def Let_def split: sum.splits if_splits option.splits)
  with f st1 fade_all_keys [OF f] show ?thesis by simp
qed

lemma weighted_state_reached:
  "\<exists>s1 s2. learn_one scenario_cfg init_state [(''a'', 2)] None = Inr (Some 0, s1) \<and>
     learn_one scenario_cfg s1 [(''a'', 2)] None = Inr (Some 0, s2) \<and>
     learn_one scenario_cfg s2 [(''b'', 2)] None = Inr (Some 1, weighted_state)"
  by (simp add: eval_defs scenario_cfg_def init_state_def weighted_state_def py_round_zero)

theorem get_assignment_store_witness:
  "get_assignment scenario_cfg weighted_state [(''a'', 2)] ''micro''
     = Inr (Some 0, weighted_state\<lparr>micro_clusters :=
         [(0, \<lparr>mc_id = Some 0, weight = 2, mc_time = Some 3, tf = [(''a'', 4)],
               oldweight = 0, deltaweight = 0, mc_n = 2, merged_ids = []\<rparr>)]\<rparr>) \<and>
   (\<exists>mcs. fade_all (Some 3) (omega scenario_cfg) 0 True (micro_clusters weighted_state) = Inr mcs \<and>
      map fst mcs = [0, 1] \<and>
      [(0, \<lparr>mc_id = Some 0, weight = 2, mc_time = Some 3, tf = [(''a'', 4)],
               oldweight = 0, deltaweight = 0, mc_n = 2, merged_ids = []\<rparr>)]
        = filter (\<lambda>(key, c). \<not> evicted scenario_cfg c) mcs)"
proof -
  have e: "get_assignment scenario_cfg weighted_state [(''a'', 2)] ''micro''
     = Inr (Some 0, weighted_state\<lparr>micro_clusters :=
         [(0, \<lparr>mc_id = Some 0, weight = 2, mc_time = Some 3, tf = [(''a'', 4)],
               oldweight = 0, deltaweight = 0, mc_n = 2, merged_ids = []\<rparr>)]\<rparr>)"
    by (simp add: get_assignment_def updateweights_def evicted_def eval_defs scenario_cfg_def
        weighted_state_def py_round_zero)
  from get_assignment_store [OF e] e show ?thesis
    by (simp add: weighted_state_def scenario_cfg_def)
qed

subsection \<open>Ingestion\<close>

lemma tfidf_total:
  "covers idf (tf b) \<Longrightarrow> \<exists>d. tfidf_cosine_distance a b idf = Inr d"
proof -
  let ?l = "\<Sum>kv\<leftarrow>tf a. case map_of idf (fst kv) of None \<Rightarrow> 0 | Some i \<Rightarrow> (snd kv * i)\<^sup>2"
  have l: "py_sqrt ?l = Inr (sqrt ?l)"
    using first_len_nonneg [of idf "tf a"] by (simp add: py_sqrt_def not_less)
  assume "covers idf (tf b)"
  then have "micro_len idf (tf b) 0 = Inr (\<Sum>kv\<leftarrow>tf b. (snd kv * the (map_of idf (fst kv)))\<^sup>2)"
    by (simp add: micro_len_covers)
  then show "\<exists>d. tfidf_cosine_distance a b idf = Inr d"
    by (simp add: tfidf_cosine_distance_def fold_dist_step l py_sqrt_sum_squares)
qed

lemma map_of_count_term:
  "map_of (count_term k result) k' \<noteq> None \<longleftrightarrow> k' = k \<or> map_of result k' \<noteq> None"
  by (auto simp: count_term_def update_conv' split: option.splits)

lemma map_of_fold_count_term:
  "map_of (fold count_term ks result) k' \<noteq> None \<longleftrightarrow> k' \<in> set ks \<or> map_of result k' \<noteq> None"
  by (induction ks arbitrary: result) (auto simp: map_of_count_term simp del: not_None_eq)

lemma map_of_count_fold:
  "map_of (fold (\<lambda>micro result. fold count_term (map fst (tf micro)) result) mcs result) k'
     \<noteq> None \<longleftrightarrow> (\<exists>c\<in>set mcs. k' \<in> fst ` set (tf c)) \<or> map_of result k' \<noteq> None"
  by (induction mcs arbitrary: result) (auto simp: map_of_fold_count_term simp del: not_None_eq)

lemma map_of_calculateIDF:
  "map_of (calculateIDF mcs) k \<noteq> None \<longleftrightarrow> (\<exists>c\<in>set mcs. k \<in> fst ` set (tf c))"
proof -
  have "map_of (calculateIDF mcs) k \<noteq> None \<longleftrightarrow> map_of (count_terms mcs) k \<noteq> None"
    unfolding calculateIDF_def
    by (simp add: map_of_eq_None_iff image_image case_prod_unfold del: not_None_eq)
  then show ?thesis
    by (simp add: count_terms_def map_of_count_fold del: not_None_eq)
qed

lemma calculateIDF_covers:
  "c \<in> set mcs \<Longrightarrow> covers (calculateIDF mcs) (tf c)"
  unfolding covers_def list_all_iff
  using map_of_calculateIDF [of mcs] by (auto simp del: not_None_eq)

lemma dist_total:
  assumes "type = ''tfidf_cosine_distance''" "covers idf (tf c)"
  shows "\<exists>d. dist type mc c idf = Inr d"
  using assms tfidf_total [of idf c mc] by (simp add: dist_def)

lemma closest_scan_counter:
  "closest_scan distance mc idf mcs acc = Inr acc' \<Longrightarrow>
     snd (snd (snd (snd acc'))) = snd (snd (snd (snd acc))) + length mcs"
proof (induction mcs arbitrary: acc)
  case Nil
  then show ?case by simp
next
  case (Cons p mcs)
  obtain key c where p: "p = (key, c)" by (cases p)
  obtain m s sd sq n where acc: "acc = (m, s, sd, sq, n)" by (cases acc) auto
  from Cons.prems obtain d where d: "dist distance mc c idf = Inr d"
    by (auto simp: p acc split: sum.splits)
  with Cons.prems have "closest_scan distance mc idf mcs
       (if d < m then d else m, if d < m then Some key else s, sd + d, sq + d\<^sup>2, n + 1) = Inr acc'"
    by (simp add: p acc)
  from Cons.IH [OF this] show ?case by (simp add: acc)
qed

lemma closest_scan_total:
  assumes "distance = ''tfidf_cosine_distance''" "\<forall>p\<in>set mcs. covers idf (tf (snd p))"
  shows "\<exists>acc'. closest_scan distance mc idf mcs acc = Inr acc'"
  using assms(2)
proof (induction mcs arbitrary: acc)
  case Nil
  show ?case by (rule exI [of _ acc]) simp
next
  case (Cons p mcs)
  obtain key c where p: "p = (key, c)" by (cases p)
  obtain m s sd sq n where acc: "acc = (m, s, sd, sq, n)" by (cases acc) auto
  from Cons.prems have "covers idf (tf c)" by (simp add: p)
  with assms(1) obtain d where d: "dist distance mc c idf = Inr d"
    using dist_total by blast
  from Cons.prems have "\<forall>p\<in>set mcs. covers idf (tf (snd p))" by simp
  from Cons.IH [OF this] d show ?case by (simp add: p acc)
qed

lemma store_covered:
  "\<forall>p\<in>set mcs. covers (calculateIDF (map snd mcs)) (tf (snd p))"
  by (auto intro!: calculateIDF_covers simp: rev_image_eqI)

lemma get_closest_mc_few:
  assumes "auto_r cfg" "length (micro_clusters st) < 2"
      and "get_closest_mc cfg st mc idf distance = Inr (cid, d)"
  shows "cid = None"
proof -
  from assms(3) obtain m s sd sq n where
    scan: "closest_scan distance mc idf (micro_clusters st) (1, None, 0, 0, 0) = Inr (m, s, sd, sq, n)"
    by (auto simp: get_closest_mc_def split: sum.splits)
  from closest_scan_counter [OF scan] assms(2) have "\<not> 1 < n" by simp
  with assms(1,3) scan show ?thesis by (simp add: get_closest_mc_def)
qed

lemma get_closest_mc_few_total:
  assumes "auto_r cfg" "length (micro_clusters st) < 2"
      and "distance = ''tfidf_cosine_distance''"
  shows "\<exists>d. get_closest_mc cfg st mc (calculateIDF (map snd (micro_clusters st))) distance
           = Inr (None, d)"
proof -
  obtain acc where
    scan: "closest_scan distance mc (calculateIDF (map snd (micro_clusters st)))
             (micro_clusters st) (1, None, 0, 0, 0) = Inr acc"
    using closest_scan_total [OF assms(3) store_covered] by blast
  obtain m s sd sq n where acc: "acc = (m, s, sd, sq, n)" by (cases acc) auto
  from closest_scan_counter [OF scan] assms(2) have "\<not> 1 < n" by (simp add: acc)
  with assms(1) scan show ?thesis by (simp add: get_closest_mc_def acc)
qed

lemma updateweights_fields:
  "updateweights cfg st = Inr st1 \<Longrightarrow>
     clusterId st1 = clusterId st \<and> dist_mean st1 = dist_mean st \<and>
     num_merged_obs st1 = num_merged_obs st"
  by (auto simp: updateweights_def split: sum.splits)

lemma cleanup_fade_fields:
  "cleanup_fade cfg st = Inr st1 \<Longrightarrow>
     clusterId st1 = clusterId st \<and> dist_mean st1 = dist_mean st \<and>
     num_merged_obs st1 = num_merged_obs st"
  by (auto simp: cleanup_fade_def set_deltaweights_def split: sum.splits
      dest!: updateweights_fields)

lemma mergemicroclusters_fields:
  "mergemicroclusters cfg st = Inr st1 \<Longrightarrow> clusterId st1 = clusterId st"
  by (auto simp: mergemicroclusters_def merge_pass_def Let_def split: sum.splits)

lemma cleanup_fields:
  "cleanup cfg st = Inr st1 \<Longrightarrow>
     clusterId st1 = clusterId st \<and> dist_mean st1 = 0 \<and> num_merged_obs st1 = 0"
  by (auto simp: cleanup_def split: sum.splits if_splits
      dest!: cleanup_fade_fields mergemicroclusters_fields)

lemma learn_one_ingest:
  assumes "learn_one cfg st x t = Inr (r, st')" "x \<noteq> []"
  obtains s due where "ingest cfg (set_clock cfg st t) x = Inr (r, s)"
    and "cleanup_due cfg s = Inr due"
    and "if due then \<exists>s'. cleanup cfg s = Inr s' \<and> st' = s'\<lparr>st_n := st_n s' + 1\<rparr>
         else st' = s\<lparr>st_n := st_n s + 1\<rparr>"
  using assms
  by (auto simp: learn_one_def Let_def split: sum.splits if_splits)

lemma ingest_create:
  "closest_for cfg st x = Inr (None, d) \<Longrightarrow> ingest cfg st x = Inr (Some (clusterId st), created st x d)"
  by (simp add: ingest_def closest_for_def created_def)

lemma ingest_accounting:
  assumes "closest_for cfg st x = Inr (cid, d)" "ingest cfg st x = Inr (r, s)"
  shows "dist_mean s = dist_mean st + d"
    and "num_merged_obs s = num_merged_obs st + (if cid = None then 0 else 1)"
    and "cid = None \<longleftrightarrow> clusterId s = clusterId st + 1"
    and "cid = None \<longrightarrow> r = Some (clusterId st)"
  using assms
  by (auto simp: ingest_def closest_for_def Let_def split: option.splits sum.splits)

lemma ingest_few:
  assumes "auto_r cfg" and "length (micro_clusters st) < 2" and "ingest cfg st x = Inr (r, s)"
  shows "\<exists>d. r = Some (clusterId st) \<and> s = created st x d"
proof -
  from assms(3) obtain cid d where cl: "closest_for cfg st x = Inr (cid, d)"
    by (auto simp: ingest_def closest_for_def Let_def split: sum.splits)
  then have "cid = None"
    unfolding closest_for_def using assms(1,2) by (intro get_closest_mc_few)
  with cl ingest_create [of cfg st x d] assms(3) show ?thesis by auto
qed

text \<open>
  Claim C7. Under adaptive thresholding, when the store holds fewer than two micro-clusters
  the ingestion step can only take the create branch, whatever the distances are: with the
  valid metric it returns the next identifier and stores the transient cluster under it,
  and it never returns anything else; and whenever \<^verbatim>\<open>learn_one\<close> returns on a non-empty
  observation it returns that identifier and has advanced the identifier counter by one.
\<close>

theorem adaptive_few_candidates_create:
  assumes "auto_r cfg" and "length (micro_clusters st) < 2"
  shows "(micro_distance cfg = ''tfidf_cosine_distance'' \<longrightarrow>
            (\<exists>d. ingest cfg st x = Inr (Some (clusterId st), created st x d))) \<and>
         (\<forall>r s. ingest cfg st x = Inr (r, s) \<longrightarrow>
            (\<exists>d. r = Some (clusterId st) \<and> s = created st x d)) \<and>
         (\<forall>t r st'. x \<noteq> [] \<longrightarrow> learn_one cfg st x t = Inr (r, st') \<longrightarrow>
            r = Some (clusterId st) \<and> clusterId st' = clusterId st + 1)"
proof (intro conjI)
  show "micro_distance cfg = ''tfidf_cosine_distance'' \<longrightarrow>
          (\<exists>d. ingest cfg st x = Inr (Some (clusterId st), created st x d))"
  proof
    assume "micro_distance cfg = ''tfidf_cosine_distance''"
    then obtain d where "closest_for cfg st x = Inr (None, d)"
      unfolding closest_for_def using get_closest_mc_few_total [OF assms] by blast
    then show "\<exists>d. ingest cfg st x = Inr (Some (clusterId st), created st x d)"
      by (auto dest: ingest_create)
  qed
next
  show "\<forall>r s. ingest cfg st x = Inr (r, s) \<longrightarrow>
          (\<exists>d. r = Some (clusterId st) \<and> s = created st x d)"
    using ingest_few [OF assms] by blast
next
  show "\<forall>t r st'. x \<noteq> [] \<longrightarrow> learn_one cfg st x t = Inr (r, st') \<longrightarrow>
            r = Some (clusterId st) \<and> clusterId st' = clusterId st + 1"
  proof (intro allI impI)
    fix t r st'
    assume x: "x \<noteq> []" and l: "learn_one cfg st x t = Inr (r, st')"
    let ?st1 = "set_clock cfg st t"
    from l x obtain s due where
      i: "ingest cfg ?st1 x = Inr (r, s)" and
      c: "if due then \<exists>s'. cleanup cfg s = Inr s' \<and> st' = s'\<lparr>st_n := st_n s' + 1\<rparr>
          else st' = s\<lparr>st_n := st_n s + 1\<rparr>"
      by (rule learn_one_ingest)
    have len: "length (micro_clusters ?st1) < 2" and id: "clusterId ?st1 = clusterId st"
      using assms(2) by (simp_all add: set_clock_def)
    from ingest_few [OF assms(1) len i] obtain d where
      r: "r = Some (clusterId st)" and s: "s = created ?st1 x d"
      by (auto simp: id)
    from s have "clusterId s = clusterId st + 1"
      by (simp add: created_def id)
    moreover from c have "clusterId st' = clusterId s"
      by (auto split: if_splits dest: cleanup_fields)
    ultimately show "r = Some (clusterId st) \<and> clusterId st' = clusterId st + 1"
      using r by simp
  qed
qed

lemma adaptive_step:
  "learn_one adaptive_cfg scenario_state1 [(''a'', 1), (''b'', 1)] None
     = Inr (Some 1,
         scenario_state1\<lparr>st_t := Some 2, st_n := 3, clusterId := 2,
           micro_clusters := micro_clusters scenario_state1 @
             [(1, new_microcluster [(''a'', 1), (''b'', 1)] (Some 2) 1 (Some 1))]\<rparr>)"
  by (simp add: eval_defs adaptive_cfg_def scenario_cfg_def scenario_state1_def py_round_zero)

theorem adaptive_few_candidates_create_witness:
  "dist (micro_distance adaptive_cfg) (new_microcluster [(''a'', 1), (''b'', 1)] (Some 2) 1 (Some 1))
     (snd (hd (micro_clusters scenario_state1)))
     (calculateIDF (map snd (micro_clusters scenario_state1))) = Inr 0 \<and>
   learn_one adaptive_cfg scenario_state1 [(''a'', 1), (''b'', 1)] None
     = Inr (Some 1,
         scenario_state1\<lparr>st_t := Some 2, st_n := 3, clusterId := 2,
           micro_clusters := micro_clusters scenario_state1 @
             [(1, new_microcluster [(''a'', 1), (''b'', 1)] (Some 2) 1 (Some 1))]\<rparr>) \<and>
   (\<exists>d. ingest adaptive_cfg scenario_state1 [(''a'', 1), (''b'', 1)]
          = Inr (Some (clusterId scenario_state1),
                 created scenario_state1 [(''a'', 1), (''b'', 1)] d)) \<and>
   Some (1::nat) = Some (clusterId scenario_state1) \<and>
   clusterId (scenario_state1\<lparr>st_t := Some 2, st_n := 3, clusterId := 2,
           micro_clusters := micro_clusters scenario_state1 @
             [(1, new_microcluster [(''a'', 1), (''b'', 1)] (Some 2) 1 (Some 1))]\<rparr>)
     = clusterId scenario_state1 + 1"
proof -
  have a: "auto_r adaptive_cfg" "length (micro_clusters scenario_state1) < 2"
      "micro_distance adaptive_cfg = ''tfidf_cosine_distance''"
    by (simp_all add: adaptive_cfg_def scenario_cfg_def scenario_state1_def)
  have d: "dist (micro_distance adaptive_cfg)
       (new_microcluster [(''a'', 1), (''b'', 1)] (Some 2) 1 (Some 1))
       (snd (hd (micro_clusters scenario_state1)))
       (calculateIDF (map snd (micro_clusters scenario_state1))) = Inr 0"
    by (simp add: eval_defs adaptive_cfg_def scenario_cfg_def scenario_state1_def py_round_zero)
  note inst = adaptive_few_candidates_create [OF a(1,2), of "[(''a'', 1), (''b'', 1)]"]
  have x: "[(''a'', 1::real), (''b'', 1)] \<noteq> []" by simp
  from inst [THEN conjunct1, rule_format, OF a(3)]
    inst [THEN conjunct2, THEN conjunct2, rule_format, OF x adaptive_step] adaptive_step d
  show ?thesis by blast
qed

lemma powr_m2: "(2::real) powr (- 2) = 1 / 4"
  by (simp add: powr_minus_divide)

lemmas run_defs = eval_defs cleanup_def cleanup_fade_def updateweights_def evicted_def
  set_deltaweights_def mergemicroclusters_def merge_pass_def merge_threshold_def
  merge_outer.simps merge_inner.simps del_at_def merging_cfg_def scenario_cfg_def
  py_round_zero py_round_one powr_m2

text \<open>
  Claim C1 as stated fails: the create branch of \<^verbatim>\<open>learn_one\<close> also executes
  \<^verbatim>\<open>self._dist_mean += min_dist\<close>. The first observation of an adaptive engine is a
  create-path ingestion (no cluster to merge into), yet it raises the running total from
  \<open>0\<close> to \<open>1\<close>, and a merge pass entered in that state would use the threshold
  \<open>1 / (0 + 1) = 1\<close>, not \<open>0\<close>. On the fading engine the second observation is a
  create-path ingestion as well (one candidate only, at distance \<open>0\<close>) and its call runs a
  cleanup: the merge pass of the code folds cluster \<open>1\<close> into cluster \<open>0\<close>, whereas with the
  threshold of the claim, \<open>0 / (0 + 1)\<close> for no merge-path ingestion, it would leave both
  clusters in the store.
\<close>

theorem create_path_changes_total:
  "learn_one adaptive_cfg init_state [(''a'', 1), (''b'', 1)] None
     = Inr (Some 0, scenario_state1) \<and>
   closest_for adaptive_cfg (set_clock adaptive_cfg init_state None) [(''a'', 1), (''b'', 1)]
     = Inr (None, 1) \<and>
   clusterId scenario_state1 = clusterId init_state + 1 \<and>
   num_merged_obs scenario_state1 = 0 \<and>
   dist_mean init_state = 0 \<and> dist_mean scenario_state1 = 1 \<and>
   merge_threshold adaptive_cfg scenario_state1 = 1 \<and>
   learn_one merging_cfg init_state [(''a'', 1), (''b'', 0)] None = Inr (Some 0, ledger_state1) \<and>
   closest_for merging_cfg (set_clock merging_cfg init_state None) [(''a'', 1), (''b'', 0)]
     = Inr (None, 1) \<and>
   closest_for merging_cfg (set_clock merging_cfg ledger_state1 None) [(''a'', 1), (''b'', 0)]
     = Inr (None, 0) \<and>
   ingest merging_cfg (set_clock merging_cfg ledger_state1 None) [(''a'', 1), (''b'', 0)]
     = Inr (Some 1, created (set_clock merging_cfg ledger_state1 None) [(''a'', 1), (''b'', 0)] 0) \<and>
   cleanup_due merging_cfg
     (created (set_clock merging_cfg ledger_state1 None) [(''a'', 1), (''b'', 0)] 0) = Inr True \<and>
   (\<exists>s. cleanup merging_cfg
           (created (set_clock merging_cfg ledger_state1 None) [(''a'', 1), (''b'', 0)] 0) = Inr s \<and>
        map fst (micro_clusters s) = [0]) \<and>
   (\<exists>s. ledger_cleanup merging_cfg (0, 0)
           (created (set_clock merging_cfg ledger_state1 None) [(''a'', 1), (''b'', 0)] 0) = Inr s \<and>
        map fst (micro_clusters s) = [0, 1])"
proof -
  let ?x = "[(''a'', 1), (''b'', 0)] :: tfvec"
  let ?s = "created (set_clock merging_cfg ledger_state1 None) ?x 0"
  have "learn_one adaptive_cfg init_state [(''a'', 1), (''b'', 1)] None
          = Inr (Some 0, scenario_state1) \<and>
        closest_for adaptive_cfg (set_clock adaptive_cfg init_state None) [(''a'', 1), (''b'', 1)]
          = Inr (None, 1) \<and>
        clusterId scenario_state1 = clusterId init_state + 1 \<and>
        num_merged_obs scenario_state1 = 0 \<and>
        dist_mean init_state = 0 \<and> dist_mean scenario_state1 = 1 \<and>
        merge_threshold adaptive_cfg scenario_state1 = 1"
    by (simp add: eval_defs closest_for_def merge_threshold_def adaptive_cfg_def scenario_cfg_def
        init_state_def scenario_state1_def)
  moreover have "learn_one merging_cfg init_state ?x None = Inr (Some 0, ledger_state1)"
    by (simp add: run_defs init_state_def ledger_state1_def)
  moreover have "closest_for merging_cfg (set_clock merging_cfg init_state None) ?x
                   = Inr (None, 1)"
    by (simp add: run_defs closest_for_def init_state_def)
  moreover have "closest_for merging_cfg (set_clock merging_cfg ledger_state1 None) ?x
                   = Inr (None, 0)"
    by (simp add: run_defs closest_for_def ledger_state1_def)
  moreover have "ingest merging_cfg (set_clock merging_cfg ledger_state1 None) ?x
                   = Inr (Some 1, ?s)"
    by (simp add: run_defs created_def ledger_state1_def)
  moreover have "cleanup_due merging_cfg ?s = Inr True"
    by (simp add: run_defs created_def ledger_state1_def)
  moreover have "\<exists>s. cleanup merging_cfg ?s = Inr s \<and> map fst (micro_clusters s) = [0]"
    by (simp add: run_defs created_def ledger_state1_def)
  moreover have "\<exists>s. ledger_cleanup merging_cfg (0, 0) ?s = Inr s \<and>
                     map fst (micro_clusters s) = [0, 1]"
    by (simp add: run_defs ledger_cleanup_def created_def ledger_state1_def)
  ultimately show ?thesis by blast
qed

text \<open>
  One call of \<^verbatim>\<open>learn_one\<close> with a non-empty observation adds the minimum distance \<open>d\<close> to
  the running total, on the create path as well as on the merge path, while the merged
  observation counter grows only on the merge path. When the cleanup is due in that call,
  the merge pass is entered with the threshold \<open>total / (counter + 1)\<close> of these
  accumulated values in adaptive mode (the radius otherwise), and total and counter are
  \<open>0\<close> when \<^verbatim>\<open>learn_one\<close> returns; when it is not due, they keep their updated values.
\<close>

lemma learn_one_accounting:
  assumes "x \<noteq> []" and "learn_one cfg st x t = Inr (r, st')"
      and "closest_for cfg (set_clock cfg st t) x = Inr (cid, d)"
  shows "\<exists>s. ingest cfg (set_clock cfg st t) x = Inr (r, s) \<and>
           dist_mean s = dist_mean st + d \<and>
           num_merged_obs s = num_merged_obs st + (if cid = None then 0 else 1) \<and>
           (cid = None \<longleftrightarrow> clusterId s = clusterId st + 1) \<and>
           (if cleanup_due cfg s = Inr True then
              (\<exists>s1. cleanup_fade cfg s = Inr s1 \<and>
                 merge_threshold cfg s1 =
                   (if auto_r cfg
                    then (dist_mean st + d) /
                         (real (num_merged_obs st + (if cid = None then 0 else 1)) + 1)
                    else radius cfg)) \<and>
              dist_mean st' = 0 \<and> num_merged_obs st' = 0
            else dist_mean st' = dist_mean s \<and> num_merged_obs st' = num_merged_obs s)"
proof -
  let ?st1 = "set_clock cfg st t"
  from assms(2,1) obtain s due where
    i: "ingest cfg ?st1 x = Inr (r, s)" and
    due: "cleanup_due cfg s = Inr due" and
    c: "if due then \<exists>s'. cleanup cfg s = Inr s' \<and> st' = s'\<lparr>st_n := st_n s' + 1\<rparr>
        else st' = s\<lparr>st_n := st_n s + 1\<rparr>"
    by (rule learn_one_ingest)
  have f: "dist_mean ?st1 = dist_mean st" "num_merged_obs ?st1 = num_merged_obs st"
      "clusterId ?st1 = clusterId st"
    by (simp_all add: set_clock_def)
  note acc = ingest_accounting [OF assms(3) i, unfolded f]
  have tail: "if cleanup_due cfg s = Inr True then
              (\<exists>s1. cleanup_fade cfg s = Inr s1 \<and>
                 merge_threshold cfg s1 =
                   (if auto_r cfg
                    then (dist_mean st + d) /
                         (real (num_merged_obs st + (if cid = None then 0 else 1)) + 1)
                    else radius cfg)) \<and>
              dist_mean st' = 0 \<and> num_merged_obs st' = 0
            else dist_mean st' = dist_mean s \<and> num_merged_obs st' = num_merged_obs s"
  proof (cases due)
    case False
    with c due show ?thesis by simp
  next
    case True
    with c obtain s' where s': "cleanup cfg s = Inr s'" "st' = s'\<lparr>st_n := st_n s' + 1\<rparr>"
      by auto
    from s'(1) obtain s1 where s1: "cleanup_fade cfg s = Inr s1"
      by (auto simp: cleanup_def split: sum.splits)
    from cleanup_fade_fields [OF s1] acc(1,2) have
      "merge_threshold cfg s1 =
         (if auto_r cfg
          then (dist_mean st + d) / (real (num_merged_obs st + (if cid = None then 0 else 1)) + 1)
          else radius cfg)"
      by (simp add: merge_threshold_def)
    with s1 cleanup_fields [OF s'(1)] s'(2) True due show ?thesis
      by simp
  qed
  from i acc(1,2,3) tail show ?thesis by blast
qed

lemma eager_step:
  "learn_one eager_cfg init_state [(''a'', 2)] None
     = Inr (Some 0, init_state\<lparr>st_t := Some 1, last_cleanup := Some 1, st_n := 2, clusterId := 1\<rparr>)"
  by (simp add: eval_defs cleanup_def cleanup_fade_def updateweights_def evicted_def
      set_deltaweights_def mergemicroclusters_def merge_pass_def merge_threshold_def
      merge_outer.simps eager_cfg_def
      adaptive_cfg_def scenario_cfg_def init_state_def)

lemma learn_one_accounting_eager:
  "closest_for eager_cfg (set_clock eager_cfg init_state None) [(''a'', 2)] = Inr (None, 1) \<and>
   learn_one eager_cfg init_state [(''a'', 2)] None
     = Inr (Some 0, init_state\<lparr>st_t := Some 1, last_cleanup := Some 1, st_n := 2, clusterId := 1\<rparr>) \<and>
   (\<exists>s. ingest eager_cfg (set_clock eager_cfg init_state None) [(''a'', 2)] = Inr (Some 0, s) \<and>
      dist_mean s = 1 \<and> num_merged_obs s = 0 \<and> clusterId s = 1 \<and>
      cleanup_due eager_cfg s = Inr True \<and>
      (\<exists>s1. cleanup_fade eager_cfg s = Inr s1 \<and> merge_threshold eager_cfg s1 = 1))"
proof -
  let ?st1 = "set_clock eager_cfg init_state None"
  let ?x = "[(''a'', 2)] :: tfvec"
  let ?s = "created ?st1 ?x 1"
  have x: "?x \<noteq> []" by simp
  have cl: "closest_for eager_cfg ?st1 ?x = Inr (None, 1)"
    by (simp add: eval_defs closest_for_def eager_cfg_def adaptive_cfg_def scenario_cfg_def
        init_state_def)
  have ing: "ingest eager_cfg ?st1 ?x = Inr (Some 0, ?s)"
    using ingest_create [OF cl] by (simp add: set_clock_def init_state_def)
  have due: "cleanup_due eager_cfg ?s = Inr True"
    by (simp add: cleanup_due_def created_def set_clock_def eager_cfg_def adaptive_cfg_def
        scenario_cfg_def init_state_def)
  have auto: "auto_r eager_cfg"
    by (simp add: eager_cfg_def adaptive_cfg_def)
  have "\<exists>s. ingest eager_cfg ?st1 ?x = Inr (Some 0, s) \<and>
          dist_mean s = dist_mean init_state + 1 \<and>
          (if cleanup_due eager_cfg s = Inr True then
             \<exists>s1. cleanup_fade eager_cfg s = Inr s1 \<and>
               merge_threshold eager_cfg s1 =
                 (dist_mean init_state + 1) / (real (num_merged_obs init_state + 0) + 1)
           else True)"
    using learn_one_accounting [OF x eager_step cl] auto
    by (elim exE conjE, intro exI conjI) (auto split: if_splits)
  then obtain s where
    s: "ingest eager_cfg ?st1 ?x = Inr (Some 0, s)" "dist_mean s = dist_mean init_state + 1"
    and t: "if cleanup_due eager_cfg s = Inr True then
             \<exists>s1. cleanup_fade eager_cfg s = Inr s1 \<and>
               merge_threshold eager_cfg s1 =
                 (dist_mean init_state + 1) / (real (num_merged_obs init_state + 0) + 1)
           else True"
    by blast
  from s(1) ing have eq: "s = ?s" by simp
  from t due eq obtain s1 where
    s1: "cleanup_fade eager_cfg ?s = Inr s1" "merge_threshold eager_cfg s1 = 1"
    by (auto simp: init_state_def)
  have fields: "dist_mean ?s = 1" "num_merged_obs ?s = 0" "clusterId ?s = 1"
    by (simp_all add: created_def set_clock_def init_state_def)
  from cl eager_step ing fields due s1 show ?thesis
    by blast
qed


text \<open>
  The cleanup of the code is the cleanup of the comparison run whose ledger holds the
  attributes \<^verbatim>\<open>_dist_mean\<close> and \<^verbatim>\<open>_num_merged_obs\<close>; so is a call of \<^verbatim>\<open>learn_one\<close>, with an
  empty or a non-empty observation.
\<close>

lemma cleanup_ledger:
  "cleanup cfg s = ledger_cleanup cfg (dist_mean s, num_merged_obs s) s"
proof (cases "cleanup_fade cfg s")
  case (Inl e)
  then show ?thesis by (simp add: cleanup_def ledger_cleanup_def)
next
  case (Inr s1)
  from cleanup_fade_fields [OF Inr] have
    "merge_threshold cfg s1 =
       (if auto_r cfg then dist_mean s / (real (num_merged_obs s) + 1) else radius cfg)"
    by (simp add: merge_threshold_def)
  with Inr show ?thesis
    by (simp add: cleanup_def ledger_cleanup_def mergemicroclusters_def)
qed

lemma ingest_closest_for:
  "ingest cfg st x =
     (case closest_for cfg st x of
        Inl e \<Rightarrow> Inl e
      | Inr (cid, d) \<Rightarrow> ingest cfg st x)"
  by (auto simp: ingest_def closest_for_def Let_def split: sum.splits)

lemma ledger_tail:
  fixes r :: "nat option"
  assumes "L = (dist_mean s, num_merged_obs s)"
  shows "(case cleanup_due cfg s of
            Inl e \<Rightarrow> Inl e
          | Inr due \<Rightarrow>
              if due then
                (case ledger_cleanup cfg L s of
                   Inl e \<Rightarrow> Inl e
                 | Inr st3 \<Rightarrow> Inr (st3\<lparr>st_n := st_n st3 + 1\<rparr>, 0, 0))
              else Inr (s\<lparr>st_n := st_n s + 1\<rparr>, L))
         = (case (case cleanup_due cfg s of
                    Inl e \<Rightarrow> Inl e
                  | Inr due \<Rightarrow>
                      (case (if due then cleanup cfg s else Inr s) of
                         Inl e \<Rightarrow> Inl e
                       | Inr st3 \<Rightarrow> Inr (r, st3\<lparr>st_n := st_n st3 + 1\<rparr>))) of
              Inl e \<Rightarrow> Inl e
            | Inr (r', st') \<Rightarrow> Inr (st', dist_mean st', num_merged_obs st'))"
proof (cases "cleanup_due cfg s")
  case (Inl e)
  then show ?thesis by simp
next
  case (Inr due)
  show ?thesis
  proof (cases due)
    case False
    with Inr assms show ?thesis by simp
  next
    case True
    have l: "ledger_cleanup cfg L s = cleanup cfg s"
      unfolding assms by (rule cleanup_ledger [symmetric])
    show ?thesis
    proof (cases "cleanup cfg s")
      case (Inl e)
      with Inr True l show ?thesis by simp
    next
      case c: (Inr st3)
      from cleanup_fields [OF c] have "dist_mean st3 = 0" "num_merged_obs st3 = 0"
        by simp_all
      with Inr True l c show ?thesis by simp
    qed
  qed
qed

lemma ledger_step_learn_one:
  "ledger_step cfg st (dist_mean st, num_merged_obs st) x t =
     (case learn_one cfg st x t of
        Inl e \<Rightarrow> Inl e
      | Inr (r, st') \<Rightarrow> Inr (st', dist_mean st', num_merged_obs st'))"
proof -
  let ?st1 = "set_clock cfg st t"
  have f: "dist_mean ?st1 = dist_mean st" "num_merged_obs ?st1 = num_merged_obs st"
    by (simp_all add: set_clock_def)
  show ?thesis
  proof (cases "0 < length x")
    case False
    have "(dist_mean st, num_merged_obs st) = (dist_mean ?st1, num_merged_obs ?st1)"
      by (simp add: f)
    from ledger_tail [OF this, of cfg None] False show ?thesis
      by (simp add: ledger_step_def learn_one_def Let_def)
  next
    case True
    show ?thesis
    proof (cases "closest_for cfg ?st1 x")
      case (Inl e)
      with ingest_closest_for [of cfg ?st1 x] have "ingest cfg ?st1 x = Inl e" by simp
      with Inl True show ?thesis
        by (simp add: ledger_step_def learn_one_def Let_def)
    next
      case (Inr p)
      obtain cid d where p: "p = (cid, d)" by (cases p)
      show ?thesis
      proof (cases "ingest cfg ?st1 x")
        case (Inl e)
        with Inr p True show ?thesis
          by (simp add: ledger_step_def learn_one_def Let_def)
      next
        case i: (Inr q)
        obtain r s where q: "q = (r, s)" by (cases q)
        from ingest_accounting(1,2) [OF Inr [unfolded p] i [unfolded q]] have
          "(dist_mean st + d, num_merged_obs st + (if cid = None then 0 else 1))
             = (dist_mean s, num_merged_obs s)"
          by (simp add: f)
        from ledger_tail [OF this, of cfg r] Inr p True i q show ?thesis
          by (simp add: ledger_step_def learn_one_def Let_def)
      qed
    qed
  qed
qed

text \<open>
  Claim C1, as amended. Take any run of \<^verbatim>\<open>learn_one\<close> calls, from any state, and beside it
  the comparison run that keeps a ledger: every non-empty ingestion adds its minimum
  distance to the ledger's sum, on the create path as well as on the merge path; only a
  merge-path ingestion adds \<open>1\<close> to the ledger's number; every cleanup, whether its call
  has an empty observation or not, runs the merge pass with the threshold
  \<open>sum / (number + 1)\<close> of the ledger in adaptive mode and empties the ledger. The two runs
  fail together or return the same state, and then the attributes \<^verbatim>\<open>_dist_mean\<close> and
  \<^verbatim>\<open>_num_merged_obs\<close> are the ledger's sum and number. So the threshold of every cleanup
  is the sum of the minimum distances of all non-empty ingestions since the last cleanup,
  divided by the number of merge-path ingestions since then plus one.
\<close>

theorem ledger_run_learn_many:
  "ledger_run cfg st (dist_mean st, num_merged_obs st) obs =
     (case learn_many cfg st obs of
        Inl e \<Rightarrow> Inl e
      | Inr st' \<Rightarrow> Inr (st', dist_mean st', num_merged_obs st'))"
proof (induction obs arbitrary: st)
  case Nil
  show ?case by simp
next
  case (Cons p obs)
  obtain x t where p: "p = (x, t)" by (cases p)
  show ?case
  proof (cases "learn_one cfg st x t")
    case (Inl e)
    with ledger_step_learn_one [of cfg st x t] show ?thesis by (simp add: p)
  next
    case (Inr q)
    obtain r st' where q: "q = (r, st')" by (cases q)
    with Inr ledger_step_learn_one [of cfg st x t] Cons.IH [of st'] show ?thesis
      by (simp add: p)
  qed
qed


text \<open>
  The run of the fading engine, call by call, and the theorem on its first three and its
  last three calls: the ledger holds \<open>(1, 0)\<close> after the third call, a create-path
  ingestion at distance \<open>1\<close> that follows the cleanup of the second call.
\<close>

lemma merging_run_steps:
  "learn_one merging_cfg init_state [(''a'', 1), (''b'', 0)] None = Inr (Some 0, ledger_state1)"
  "learn_one merging_cfg ledger_state1 [(''a'', 1), (''b'', 0)] None = Inr (Some 1, ledger_state2)"
  "learn_one merging_cfg ledger_state2 [(''a'', 0), (''b'', 1)] None = Inr (Some 2, ledger_state3)"
  "learn_one merging_cfg ledger_state3 [(''a'', 0), (''b'', 1)] None = Inr (Some 2, ledger_state4)"
  "learn_one merging_cfg ledger_state4 [] None = Inr (None, ledger_state5)"
  "learn_one merging_cfg ledger_state5 [] None = Inr (None, ledger_state6)"
  by (simp_all add: run_defs init_state_def ledger_state1_def ledger_state2_def ledger_state3_def
      ledger_state4_def ledger_state5_def ledger_state6_def)

theorem ledger_run_learn_many_witness:
  "learn_many merging_cfg init_state
     [([(''a'', 1), (''b'', 0)], None), ([(''a'', 1), (''b'', 0)], None),
      ([(''a'', 0), (''b'', 1)], None)] = Inr ledger_state3 \<and>
   ledger_run merging_cfg init_state (0, 0)
     [([(''a'', 1), (''b'', 0)], None), ([(''a'', 1), (''b'', 0)], None),
      ([(''a'', 0), (''b'', 1)], None)] = Inr (ledger_state3, 1, 0) \<and>
   learn_many merging_cfg ledger_state3
     [([(''a'', 0), (''b'', 1)], None), ([], None), ([], None)] = Inr ledger_state6 \<and>
   ledger_run merging_cfg ledger_state3 (1, 0)
     [([(''a'', 0), (''b'', 1)], None), ([], None), ([], None)] = Inr (ledger_state6, 0, 0) \<and>
   map fst (micro_clusters ledger_state3) = [0, 2] \<and>
   merged_ids (snd (hd (micro_clusters ledger_state3))) = [Some 1]"
proof -
  let ?run1 = "[([(''a'', 1), (''b'', 0)], None), ([(''a'', 1), (''b'', 0)], None),
               ([(''a'', 0), (''b'', 1)], None)] :: (tfvec \<times> real option) list"
  let ?run2 = "[([(''a'', 0), (''b'', 1)], None), ([], None), ([], None)]
                 :: (tfvec \<times> real option) list"
  have l1: "learn_many merging_cfg init_state ?run1 = Inr ledger_state3"
    by (simp add: merging_run_steps)
  have l2: "learn_many merging_cfg ledger_state3 ?run2 = Inr ledger_state6"
    by (simp add: merging_run_steps)
  have f: "dist_mean init_state = 0" "num_merged_obs init_state = 0"
    "dist_mean ledger_state3 = 1" "num_merged_obs ledger_state3 = 0"
    "dist_mean ledger_state6 = 0" "num_merged_obs ledger_state6 = 0"
    by (simp_all add: init_state_def ledger_state3_def ledger_state6_def ledger_state4_def)
  from ledger_run_learn_many [of merging_cfg init_state ?run1]
  have r1: "ledger_run merging_cfg init_state (0, 0) ?run1 = Inr (ledger_state3, 1, 0)"
    by (simp only: l1 f sum.case)
  from ledger_run_learn_many [of merging_cfg ledger_state3 ?run2]
  have r2: "ledger_run merging_cfg ledger_state3 (1, 0) ?run2 = Inr (ledger_state6, 0, 0)"
    by (simp only: l2 f sum.case)
  have "map fst (micro_clusters ledger_state3) = [0, 2]"
    "merged_ids (snd (hd (micro_clusters ledger_state3))) = [Some 1]"
    by (simp_all add: ledger_state3_def)
  with l1 l2 r1 r2 show ?thesis by blast
qed



subsection \<open>Agglomerative clustering\<close>

lemma matrix_row_total:
  assumes "distance = ''tfidf_cosine_distance''"
      and "\<forall>key\<in>set (row # cols). \<exists>c. map_of clusters key = Some c \<and> covers idf (tf c)"
  shows "\<exists>dm'. matrix_row distance idf clusters row cols dm = Inr dm'"
  using assms(2)
proof (induction cols arbitrary: dm)
  case Nil
  then show ?case by simp
next
  case (Cons col cols)
  from Cons.prems obtain crow ccol where
    r: "map_of clusters row = Some crow" and c: "map_of clusters col = Some ccol"
    and cov: "covers idf (tf ccol)"
    by auto
  from dist_total [OF assms(1) cov] obtain d where d: "dist distance crow ccol idf = Inr d"
    by blast
  from Cons.prems have "\<forall>key\<in>set (row # cols). \<exists>c. map_of clusters key = Some c \<and> covers idf (tf c)"
    by simp
  from Cons.IH [OF this] r c d show ?case by simp
qed

lemma matrix_rows_total:
  assumes "distance = ''tfidf_cosine_distance''"
      and "\<forall>key\<in>set ids. \<exists>c. map_of clusters key = Some c \<and> covers idf (tf c)"
  shows "\<exists>dm'. matrix_rows distance idf clusters ids dm = Inr dm'"
  using assms(2)
proof (induction ids arbitrary: dm)
  case Nil
  then show ?case by simp
next
  case (Cons row ids)
  from matrix_row_total [OF assms(1), of row ids clusters idf dm] Cons.prems
  obtain dm1 where r: "matrix_row distance idf clusters row ids dm = Inr dm1"
    by auto
  from Cons.prems have "\<forall>key\<in>set ids. \<exists>c. map_of clusters key = Some c \<and> covers idf (tf c)"
    by simp
  from Cons.IH [OF this, of dm1] r show ?case by simp
qed

lemma get_distance_matrix_total:
  assumes "macro_distance cfg = ''tfidf_cosine_distance''"
  shows "\<exists>dm. get_distance_matrix cfg clusters = Inr dm"
proof -
  have "\<exists>c. map_of clusters key = Some c \<and> covers (calculateIDF (map snd clusters)) (tf c)"
    if "key \<in> set (map fst clusters)" for key
  proof -
    from that obtain c where c: "map_of clusters key = Some c"
      by (metis map_of_eq_None_iff not_Some_eq set_map)
    then have "(key, c) \<in> set clusters" by (rule map_of_SomeD)
    then have "c \<in> set (map snd clusters)" by force
    then have "covers (calculateIDF (map snd clusters)) (tf c)" by (rule calculateIDF_covers)
    with c show ?thesis by blast
  qed
  then show ?thesis
    unfolding get_distance_matrix_def
    by (intro matrix_rows_total [OF assms]) blast
qed

lemma fold_preserve:
  assumes "Q a" and "\<And>x a. Q a \<Longrightarrow> Q (f x a)"
  shows "Q (fold f xs a)"
  using assms by (induction xs arbitrary: a) auto

lemma fold_establish:
  assumes "I a" and "\<And>x a. I a \<Longrightarrow> I (f x a)" and "\<And>x a. Q a \<Longrightarrow> Q (f x a)"
      and "\<exists>x\<in>set xs. \<forall>a. I a \<longrightarrow> Q (f x a)"
  shows "Q (fold f xs a)"
  using assms(1,4)
proof (induction xs arbitrary: a)
  case Nil
  then show ?case by simp
next
  case (Cons y ys)
  show ?case
  proof (cases "\<exists>x\<in>set ys. \<forall>a. I a \<longrightarrow> Q (f x a)")
    case True
    from Cons.prems(1) have "I (f y a)" by (rule assms(2))
    from Cons.IH [OF this True] show ?thesis by simp
  next
    case False
    with Cons.prems have "Q (f y a)" by auto
    then have "Q (fold f ys (f y a))"
      by (rule fold_preserve) (rule assms(3))
    then show ?thesis by simp
  qed
qed

lemma pair_step_found: "found acc \<Longrightarrow> found (pair_step distm i j c_i c_j acc)"
  by (auto simp: pair_step_def found_def)

lemma pair_step_consistent: "consistent acc \<Longrightarrow> consistent (pair_step distm i j c_i c_j acc)"
  by (auto simp: pair_step_def consistent_def)

lemma pair_step_establish: "consistent acc \<Longrightarrow> found (pair_step distm i j c_i c_j acc)"
  by (auto simp: pair_step_def found_def consistent_def)

lemma find_min_pair_found:
  assumes "2 \<le> length clusters" "\<forall>g\<in>set clusters. g \<noteq> []"
  shows "snd (find_min_pair distm clusters) \<noteq> None"
proof -
  let ?n = "length clusters"
  let ?inner = "\<lambda>i j c_i. fold (\<lambda>c_j. pair_step distm i j c_i c_j) (clusters ! j)"
  let ?mid = "\<lambda>i j. fold (?inner i j) (clusters ! i)"
  let ?outer = "\<lambda>i. fold (?mid i) [i + 1 ..< ?n]"
  have inner_pres: "found (?inner i j c_i a)" if "found a" for i j c_i a
    using that by (rule fold_preserve) (rule pair_step_found)
  have mid_pres: "found (?mid i j a)" if "found a" for i j a
    using that by (rule fold_preserve) (rule inner_pres)
  have outer_pres: "found (?outer i a)" if "found a" for i a
    using that by (rule fold_preserve) (rule mid_pres)
  have inner_con: "consistent (?inner i j c_i a)" if "consistent a" for i j c_i a
    using that by (rule fold_preserve) (rule pair_step_consistent)
  have mid_con: "consistent (?mid i j a)" if "consistent a" for i j a
    using that by (rule fold_preserve) (rule inner_con)
  have outer_con: "consistent (?outer i a)" if "consistent a" for i a
    using that by (rule fold_preserve) (rule mid_con)
  have ne: "clusters ! i \<noteq> []" if "i < ?n" for i
    using assms(2) that by simp
  have inner_est: "found (?inner i j c_i a)" if j: "j < ?n" and a: "consistent a" for i j c_i a
  proof -
    obtain c cs where c: "clusters ! j = c # cs"
      using ne [OF j] by (cases "clusters ! j") auto
    have "found (pair_step distm i j c_i c a)"
      using a by (rule pair_step_establish)
    then have "found (fold (\<lambda>c_j. pair_step distm i j c_i c_j) cs (pair_step distm i j c_i c a))"
      by (rule fold_preserve) (rule pair_step_found)
    then show ?thesis by (simp add: c)
  qed
  have mid_est: "found (?mid i j a)" if i: "i < ?n" and j: "j < ?n" and a: "consistent a"
    for i j a
  proof -
    obtain c cs where c: "clusters ! i = c # cs"
      using ne [OF i] by (cases "clusters ! i") auto
    have "found (?inner i j c a)" using j a by (rule inner_est)
    then have "found (fold (?inner i j) cs (?inner i j c a))"
      by (rule fold_preserve) (rule inner_pres)
    then show ?thesis by (simp add: c)
  qed
  have outer_est: "found (fold (?mid 0) [Suc 0 ..< ?n] a)" if a: "consistent a" for a
  proof (rule fold_establish [where I = consistent])
    show "consistent a" by (rule a)
    show "consistent (?mid 0 x b)" if "consistent b" for x b using that by (rule mid_con)
    show "found (?mid 0 x b)" if "found b" for x b using that by (rule mid_pres)
    show "\<exists>x\<in>set [Suc 0..<?n]. \<forall>b. consistent b \<longrightarrow> found (?mid 0 x b)"
      using assms(1) by (intro bexI [of _ 1]) (auto intro: mid_est)
  qed
  have "found (fold ?outer [0 ..< ?n - 1] (None, None))"
  proof (rule fold_establish [where I = consistent])
    show "consistent (None, None)" by (simp add: consistent_def)
    show "consistent (?outer x b)" if "consistent b" for x b using that by (rule outer_con)
    show "found (?outer x b)" if "found b" for x b using that by (rule outer_pres)
    show "\<exists>x\<in>set [0..<?n - 1]. \<forall>b. consistent b \<longrightarrow> found (?outer x b)"
      using assms(1) by (intro bexI [of _ 0]) (auto intro: outer_est)
  qed
  then show ?thesis
    by (simp add: find_min_pair_def found_def)
qed

lemma pair_step_in_range:
  "i < j \<Longrightarrow> j < n \<Longrightarrow> in_range n acc \<Longrightarrow> in_range n (pair_step distm i j c_i c_j acc)"
  by (auto simp: pair_step_def in_range_def)

lemma find_min_pair_in_range:
  "in_range (length clusters) (find_min_pair distm clusters)"
  unfolding find_min_pair_def
proof (rule fold_invariant [where Q = "\<lambda>i. i < length clusters - 1"])
  show "in_range (length clusters) (None, None)" by (simp add: in_range_def)
  show "i < length clusters - 1" if "i \<in> set [0..<length clusters - 1]" for i
    using that by simp
  fix i acc
  assume i: "i < length clusters - 1" and acc: "in_range (length clusters) acc"
  show "in_range (length clusters)
          (fold (\<lambda>j. fold (\<lambda>c_i. fold (\<lambda>c_j. pair_step distm i j c_i c_j) (clusters ! j))
                          (clusters ! i)) [i + 1..<length clusters] acc)"
  proof (rule fold_invariant [where Q = "\<lambda>j. i < j \<and> j < length clusters"])
    show "in_range (length clusters) acc" by (rule acc)
    show "i < j \<and> j < length clusters" if "j \<in> set [i + 1..<length clusters]" for j
      using that by simp
    fix j acc1
    assume j: "i < j \<and> j < length clusters" and acc1: "in_range (length clusters) acc1"
    show "in_range (length clusters)
            (fold (\<lambda>c_i. fold (\<lambda>c_j. pair_step distm i j c_i c_j) (clusters ! j))
               (clusters ! i) acc1)"
      using acc1
    proof (rule fold_preserve)
      fix c_i acc2
      assume "in_range (length clusters) acc2"
      then show "in_range (length clusters)
                   (fold (\<lambda>c_j. pair_step distm i j c_i c_j) (clusters ! j) acc2)"
      proof (rule fold_preserve)
        fix c_j acc3
        assume "in_range (length clusters) acc3"
        with j show "in_range (length clusters) (pair_step distm i j c_i c_j acc3)"
          by (simp add: pair_step_in_range)
      qed
    qed
  qed
qed

lemma find_min_pair_Some:
  assumes "snd (find_min_pair distm clusters) = Some (i, j)"
  shows "i < j \<and> j < length clusters"
  using find_min_pair_in_range [of clusters distm] assms by (simp add: in_range_def)

lemma merge_groups_decomp:
  assumes "i < j" "j < length xs"
  shows "\<exists>A B C. xs = A @ [xs ! i] @ B @ [xs ! j] @ C \<and>
           del_at j (xs[i := xs ! i @ xs ! j]) = A @ [xs ! i @ xs ! j] @ B @ C"
proof -
  define A where "A = take i xs"
  define R where "R = drop (Suc i) xs"
  define B where "B = take (j - Suc i) R"
  define C where "C = drop (Suc (j - Suc i)) R"
  from assms have i: "i < length xs" by simp
  have xs: "xs = A @ xs ! i # R"
    unfolding A_def R_def using i by (rule id_take_nth_drop)
  have lenA: "length A = i" unfolding A_def using i by simp
  have jR: "j - Suc i < length R" unfolding R_def using assms by simp
  have Rj: "R ! (j - Suc i) = xs ! j"
    unfolding R_def using assms by simp
  have R: "R = B @ xs ! j # C"
    unfolding B_def C_def using id_take_nth_drop [OF jR] Rj by simp
  have lenB: "length B = j - Suc i" unfolding B_def using jR by simp
  have full: "xs = A @ [xs ! i] @ B @ [xs ! j] @ C"
    using xs R by simp
  have j: "j = length A + Suc (length B)"
    using lenA lenB assms by simp
  have "xs[i := xs ! i @ xs ! j] = A @ (xs ! i @ xs ! j) # B @ xs ! j # C"
    by (subst (1) full) (simp add: list_update_append lenA)
  then have "del_at j (xs[i := xs ! i @ xs ! j]) = A @ [xs ! i @ xs ! j] @ B @ C"
    by (simp add: del_at_def j)
  with full show ?thesis by blast
qed

lemma partitions_merge:
  assumes "partitions xs ids" "i < j" "j < length xs"
  shows "partitions (del_at j (xs[i := xs ! i @ xs ! j])) ids"
proof -
  from merge_groups_decomp [OF assms(2,3)] obtain A B C where
    xs: "xs = A @ [xs ! i] @ B @ [xs ! j] @ C" and
    ys: "del_at j (xs[i := xs ! i @ xs ! j]) = A @ [xs ! i @ xs ! j] @ B @ C"
    by blast
  define a where "a = xs ! i"
  define b where "b = xs ! j"
  from assms(1) have "partitions (A @ [a] @ B @ [b] @ C) ids"
    using xs unfolding a_def b_def by simp
  then have "partitions (A @ [a @ b] @ B @ C) ids"
    unfolding partitions_def by auto
  then show ?thesis
    unfolding ys a_def b_def .
qed

lemma length_del_at: "j < length xs \<Longrightarrow> length (del_at j xs) = length xs - 1"
  by (simp add: del_at_def)

lemma agglomerate_partitions:
  assumes "partitions clusters ids" "1 \<le> k" "k \<le> int (length clusters)"
  shows "\<exists>groups. agglomerate distm clusters k = Inr groups \<and> int (length groups) = k \<and>
           partitions groups ids"
  using assms
proof (induction distm clusters k rule: agglomerate.induct)
  case (1 distm clusters k)
  note unf = agglomerate.simps [of distm clusters k]
  show ?case
  proof (cases "int (length clusters) = k")
    case True
    with "1.prems"(1) show ?thesis by (simp add: unf)
  next
    case False
    with "1.prems" have len: "2 \<le> length clusters" by simp
    from "1.prems"(1) have ne: "\<forall>g\<in>set clusters. g \<noteq> []"
      by (simp add: partitions_def)
    from find_min_pair_found [OF len ne, of distm] obtain i j where
      p: "snd (find_min_pair distm clusters) = Some (i, j)"
      by auto
    from find_min_pair_Some [OF p] have ij: "i < j" "j < length clusters" by simp_all
    then have b: "i < length clusters \<and> j < length clusters" by simp
    let ?new = "del_at j (clusters[i := clusters ! i @ clusters ! j])"
    have part: "partitions ?new ids"
      using "1.prems"(1) ij by (rule partitions_merge)
    have "length ?new = length clusters - 1"
      using ij(2) by (simp add: length_del_at)
    with False "1.prems"(3) have k: "k \<le> int (length ?new)" by simp
    from "1.IH" [OF False p refl b part "1.prems"(2) k] obtain groups where
      "agglomerate distm ?new k = Inr groups" "int (length groups) = k" "partitions groups ids"
      by blast
    with False p b show ?thesis by (simp add: unf)
  qed
qed

lemma partitions_singletons:
  "distinct ids \<Longrightarrow> partitions (map (\<lambda>key. [key]) ids) (set ids)"
  by (induction ids) (auto simp: partitions_def)

lemma agglomerative_clustering_partitions:
  assumes "macro_distance cfg = ''tfidf_cosine_distance''" "wf_dict micros"
      and "1 \<le> k" "k \<le> int (length micros)"
  shows "\<exists>groups. agglomerative_clustering cfg micros k = Inr groups \<and>
           int (length groups) = k \<and> partitions groups (fst ` set micros)"
proof -
  from get_distance_matrix_total [OF assms(1)] obtain distm where
    dm: "get_distance_matrix cfg micros = Inr distm" by blast
  have "partitions (map (\<lambda>key. [key]) (map fst micros)) (set (map fst micros))"
    using assms(2) unfolding wf_dict_def by (rule partitions_singletons)
  moreover have "k \<le> int (length (map (\<lambda>key. [key]) (map fst micros)))"
    using assms(4) by simp
  ultimately obtain groups where
    "agglomerate distm (map (\<lambda>key. [key]) (map fst micros)) k = Inr groups"
    "int (length groups) = k" "partitions groups (set (map fst micros))"
    using agglomerate_partitions [OF _ assms(3)] by blast
  with dm show ?thesis
    by (simp add: agglomerative_clustering_def)
qed

lemma partitions_disjoint:
  assumes "partitions groups ids" "i < length groups" "j < length groups" "i \<noteq> j"
  shows "set (groups ! i) \<inter> set (groups ! j) = {}"
proof -
  from assms(1) have d: "distinct (concat groups)" and ne: "\<forall>g\<in>set groups. g \<noteq> []"
    by (simp_all add: partitions_def)
  from ne have "[] \<notin> set groups" by auto
  then have "removeAll [] groups = groups" by (rule removeAll_id)
  with d have dg: "distinct groups" and
    dis: "\<And>ys zs. ys \<in> set groups \<Longrightarrow> zs \<in> set groups \<Longrightarrow> ys \<noteq> zs \<Longrightarrow> set ys \<inter> set zs = {}"
    by (simp_all add: distinct_concat_iff)
  from dg assms(2-4) have "groups ! i \<noteq> groups ! j"
    by (simp add: nth_eq_iff_index_eq)
  with dis [of "groups ! i" "groups ! j"] assms(2,3) show ?thesis by simp
qed

text \<open>
  Claim C9. For a valid macro metric, micro-clusters with distinct identifiers and a target
  count \<open>k\<close> with \<open>1 \<le> k \<le> m\<close>, the clustering step returns (the loop is a total
  function and raises nothing), with exactly \<open>k\<close> groups that are pairwise disjoint and whose
  union is the set of all given identifiers.
\<close>

theorem agglomerative_clustering_terminates:
  assumes "macro_distance cfg = ''tfidf_cosine_distance''" and "wf_dict micros"
      and "1 \<le> k" and "k \<le> int (length micros)"
  shows "\<exists>groups. agglomerative_clustering cfg micros k = Inr groups \<and>
           int (length groups) = k \<and>
           (\<forall>i<length groups. \<forall>j<length groups. i \<noteq> j \<longrightarrow>
              set (groups ! i) \<inter> set (groups ! j) = {}) \<and>
           \<Union> (set ` set groups) = fst ` set micros"
proof -
  from agglomerative_clustering_partitions [OF assms] obtain groups where
    g: "agglomerative_clustering cfg micros k = Inr groups" "int (length groups) = k"
    and p: "partitions groups (fst ` set micros)"
    by blast
  from p have "\<Union> (set ` set groups) = fst ` set micros"
    by (simp add: partitions_def)
  with g partitions_disjoint [OF p] show ?thesis by blast
qed

lemma example_matrix:
  "\<exists>distm. get_distance_matrix scenario_cfg example_micros = Inr distm \<and>
     distm (1, 0) = 0 \<and> distm (2, 0) = 1 \<and> distm (2, 1) = 1"
  by (simp add: get_distance_matrix_def example_micros_def scenario_cfg_def eval_defs
      py_round_zero py_round_one)

lemma example_groups:
  "agglomerative_clustering scenario_cfg example_micros 2 = Inr [[0, 1], [2]]"
proof -
  from example_matrix obtain distm where
    dm: "get_distance_matrix scenario_cfg example_micros = Inr distm"
    and v: "distm (1, 0) = 0" "distm (2, 0) = 1" "distm (2, 1) = 1"
    by blast
  from v have v': "distm (Suc 0, 0) = 0" "distm (2, Suc 0) = 1" by simp_all
  have p: "find_min_pair distm [[0], [Suc 0], [2]] = (Some 0, Some (0, Suc 0))"
    by (simp add: find_min_pair_def pair_step_def v v' upt_rec)
  have "agglomerate distm [[0], [1], [2]] 2 = Inr [[0, 1], [2]]"
    by (simp add: agglomerate.simps p del_at_def)
  with dm show ?thesis
    by (simp add: agglomerative_clustering_def example_micros_def)
qed

theorem agglomerative_clustering_terminates_witness:
  "agglomerative_clustering scenario_cfg example_micros 2 = Inr [[0, 1], [2]] \<and>
   int (length [[0, 1], [2::nat]]) = 2 \<and>
   set ([[0, 1], [2::nat]] ! 0) \<inter> set ([[0, 1], [2]] ! 1) = {} \<and>
   \<Union> (set ` set [[0, 1], [2]]) = fst ` set example_micros"
proof -
  have "macro_distance scenario_cfg = ''tfidf_cosine_distance''" "wf_dict example_micros"
    "1 \<le> (2::int)" "2 \<le> int (length example_micros)"
    by (simp_all add: scenario_cfg_def wf_dict_def example_micros_def)
  from agglomerative_clustering_terminates [OF this] obtain groups where
    g: "agglomerative_clustering scenario_cfg example_micros 2 = Inr groups"
      "int (length groups) = 2"
      "\<forall>i<length groups. \<forall>j<length groups. i \<noteq> j \<longrightarrow>
         set (groups ! i) \<inter> set (groups ! j) = {}"
      "\<Union> (set ` set groups) = fst ` set example_micros"
    by blast
  from g(1) example_groups have eq: "groups = [[0, 1], [2]]" by simp
  from g(3) have "set (groups ! 0) \<inter> set (groups ! 1) = {}"
    unfolding eq by simp
  with g eq show ?thesis by simp
qed

subsection \<open>Macro-level assignment\<close>










lemma macro_state_reached:
  "\<exists>s1 s2 s3. learn_one macro_cfg init_state [(''a'', 1), (''b'', 0)] None = Inr (Some 0, s1) \<and>
     learn_one macro_cfg s1 [(''a'', 1), (''b'', 0)] None = Inr (Some 0, s2) \<and>
     learn_one macro_cfg s2 [(''a'', 0), (''b'', 1)] None = Inr (Some 1, s3) \<and>
     learn_one macro_cfg s3 [(''a'', 0), (''b'', 1)] None = Inr (Some 1, macro_state)"
  by (simp add: eval_defs macro_cfg_def scenario_cfg_def init_state_def macro_state_def
      py_round_zero py_round_one)





end
